theory Spec2Isabelle
  imports Main "HOL-Library.AList" "HOL-Library.Sublist"
begin

section \<open>The services the visitor consumes\<close>

text \<open>
  \<^verbatim>\<open>src/Output.cxx\<close> walks a Clang AST and writes a gccxml-style document. Clang and
  \<^verbatim>\<open>Utils.h\<close> are not part of the file, so every query the visitor makes of them is a
  field of the record \<open>ast\<close> below. A declaration (\<^verbatim>\<open>clang::Decl const*\<close>) and a file
  entry (\<^verbatim>\<open>clang::FileEntry const*\<close>) are addresses, modelled as natural numbers. A
  declaration context is identified with the declaration it belongs to.
\<close>

type_synonym decl = nat
type_synonym file_entry = nat

text \<open>
  A \<^verbatim>\<open>clang::QualType\<close> is a pointer to a type node whose low-order bits carry the
  local const, volatile and restrict qualifiers. \<open>TypePtr\<close> counts the address in units
  of the 16-byte alignment of type nodes.
\<close>

record QualType =
  TypePtr :: nat
  LocalConst :: bool
  LocalVolatile :: bool
  LocalRestrict :: bool

definition isLocalConstQualified :: "QualType \<Rightarrow> bool" where
  "isLocalConstQualified t = LocalConst t"

definition isLocalVolatileQualified :: "QualType \<Rightarrow> bool" where
  "isLocalVolatileQualified t = LocalVolatile t"

definition isLocalRestrictQualified :: "QualType \<Rightarrow> bool" where
  "isLocalRestrictQualified t = LocalRestrict t"

definition hasLocalQualifiers :: "QualType \<Rightarrow> bool" where
  "hasLocalQualifiers t = (LocalConst t \<or> LocalVolatile t \<or> LocalRestrict t)"

definition getLocalUnqualifiedType :: "QualType \<Rightarrow> QualType" where
  "getLocalUnqualifiedType t =
     t\<lparr>LocalConst := False, LocalVolatile := False, LocalRestrict := False\<rparr>"

text \<open>
  The pointer-sized value that \<^verbatim>\<open>QualTypeCompare\<close> orders by: the address with the
  qualifier bits in the low-order positions (const 1, restrict 2, volatile 4).
\<close>

definition getAsOpaquePtr :: "QualType \<Rightarrow> nat" where
  "getAsOpaquePtr t =
     16 * TypePtr t + (if LocalConst t then 1 else 0) + (if LocalRestrict t then 2 else 0)
       + (if LocalVolatile t then 4 else 0)"

text \<open>
  The declaration kinds of \<^verbatim>\<open>clang/AST/DeclNodes.inc\<close>. The visitor treats five of
  them specially; \<open>OtherDecl\<close> stands for every other concrete kind.
\<close>

datatype DeclKind = TranslationUnit | Namespace | Typedef | CXXRecord | AccessSpec | OtherDecl

datatype AccessSpecifier = AS_public | AS_protected | AS_private | AS_none

record ast =
  getTranslationUnitDecl :: decl
  getCanonicalDecl :: "decl \<Rightarrow> decl"
  getKind :: "decl \<Rightarrow> DeclKind"
  getDeclKindName :: "decl \<Rightarrow> string"
  getTypeClassName :: "QualType \<Rightarrow> string"
  decls :: "decl \<Rightarrow> decl list"
  isInjectedClassName :: "decl \<Rightarrow> bool"
  getName :: "decl \<Rightarrow> string"
  getDeclContext :: "decl \<Rightarrow> decl option"
  isRecord :: "decl \<Rightarrow> bool"
  getAccess :: "decl \<Rightarrow> AccessSpecifier"
  getTypeSourceInfoType :: "decl \<Rightarrow> QualType"
  getLocationIsValid :: "decl \<Rightarrow> bool"
  getFileEntryForID :: "decl \<Rightarrow> file_entry option"
  getExpansionLineNumber :: "decl \<Rightarrow> nat"
  getFileName :: "file_entry \<Rightarrow> string"
  lookup :: "decl \<Rightarrow> string \<Rightarrow> decl list"
  isDeclContext :: "decl \<Rightarrow> bool"
  encodeXML :: "string \<Rightarrow> string"

text \<open>
  \<open>getDeclContext a d\<close> is \<open>None\<close> when the context of \<open>d\<close> is not itself a declaration
  (\<^verbatim>\<open>dyn_cast<clang::Decl>(dc)\<close> yields null). \<open>getFileEntryForID a d\<close> is the file entry
  of the expansion location of \<open>d\<close>, \<open>None\<close> for a null pointer. \<open>isDeclContext a d\<close> is
  \<^verbatim>\<open>dyn_cast<clang::DeclContext>(d)\<close> being non-null. \<open>encodeXML\<close> is the escaping
  function of \<^verbatim>\<open>Utils.h\<close>.
\<close>


section \<open>The visitor's state\<close>

record DumpNode =
  Index :: nat
  Complete :: bool

text \<open>
  A queue entry is a kind tag with the declaration or type of that kind. Its \<^verbatim>\<open>DN\<close>
  member always points at the registry node stored under that same key (the nodes of a
  \<^verbatim>\<open>std::map\<close> never move), so the model reads the node through the key.
\<close>

datatype QueueEntry = KindDecl decl | KindType QualType

text \<open>
  The two \<^verbatim>\<open>std::map\<close> registries and the file map are association lists with distinct
  keys; iteration in key order sorts them. The counters are \<^verbatim>\<open>unsigned int\<close> in the
  source and natural numbers here: a dump never holds \<open>2^32\<close> nodes in memory.
\<close>

record ASTVisitor =
  NodeCount :: nat
  FileCount :: nat
  RequireComplete :: bool
  DeclNodes :: "(decl \<times> DumpNode) list"
  TypeNodes :: "(QualType \<times> DumpNode) list"
  FileNodes :: "(file_entry \<times> nat) list"
  Queue :: "QueueEntry list"
  FileQueue :: "file_entry list"
  OS :: string

text \<open>The constructor: both counters zero, \<open>RequireComplete\<close> set, everything else empty.\<close>

definition ASTVisitor_init :: ASTVisitor where
  "ASTVisitor_init =
     \<lparr>NodeCount = 0, FileCount = 0, RequireComplete = True, DeclNodes = [], TypeNodes = [],
      FileNodes = [], Queue = [], FileQueue = [], OS = []\<rparr>"

text \<open>\<^verbatim>\<open>operator<<\<close> on an \<^verbatim>\<open>unsigned int\<close>: the decimal digits.\<close>

function decimal :: "nat \<Rightarrow> string" where
  "decimal n =
     (if n < 10 then [''0123456789'' ! n]
      else decimal (n div 10) @ [''0123456789'' ! (n mod 10)])"
  by pat_completeness auto
termination
  by (relation "measure id") auto

declare decimal.simps [simp del]


section \<open>The node and file registries\<close>

text \<open>
  \<^verbatim>\<open>GetDumpNode\<close> is \<^verbatim>\<open>&this->DeclNodes[d]\<close> or \<^verbatim>\<open>&this->TypeNodes[t]\<close>: a key
  that is absent reads as the default node (index 0, incomplete).
\<close>

definition DumpNode_default :: DumpNode where
  "DumpNode_default = \<lparr>Index = 0, Complete = False\<rparr>"

fun GetDumpNode :: "ASTVisitor \<Rightarrow> QueueEntry \<Rightarrow> DumpNode" where
  "GetDumpNode v (KindDecl d) =
     (case map_of (DeclNodes v) d of None \<Rightarrow> DumpNode_default | Some dn \<Rightarrow> dn)"
| "GetDumpNode v (KindType t) =
     (case map_of (TypeNodes v) t of None \<Rightarrow> DumpNode_default | Some dn \<Rightarrow> dn)"

text \<open>Writing through the pointer that \<^verbatim>\<open>GetDumpNode\<close> returned.\<close>

fun SetDumpNode :: "QueueEntry \<Rightarrow> DumpNode \<Rightarrow> ASTVisitor \<Rightarrow> ASTVisitor" where
  "SetDumpNode (KindDecl d) dn v = v\<lparr>DeclNodes := AList.update d dn (DeclNodes v)\<rparr>"
| "SetDumpNode (KindType t) dn v = v\<lparr>TypeNodes := AList.update t dn (TypeNodes v)\<rparr>"

text \<open>
  The template \<^verbatim>\<open>AddDumpNodeImpl<K>\<close>; the key type \<^verbatim>\<open>K\<close> is the tag of the queue
  entry it would push.
\<close>

definition AddDumpNodeImpl :: "QueueEntry \<Rightarrow> bool \<Rightarrow> ASTVisitor \<Rightarrow> nat \<times> ASTVisitor" where
  "AddDumpNodeImpl k complete v =
     (let dn = GetDumpNode v k in
      if Index dn \<noteq> 0 then
        (if complete \<and> \<not> Complete dn
         then (Index dn, (SetDumpNode k (dn\<lparr>Complete := True\<rparr>) v)\<lparr>Queue := Queue v @ [k]\<rparr>)
         else (Index dn, v))
      else
        (let n = NodeCount v + 1;
             v1 = SetDumpNode k \<lparr>Index = n, Complete = complete\<rparr> (v\<lparr>NodeCount := n\<rparr>)
         in if complete \<or> \<not> RequireComplete v
            then (n, v1\<lparr>Queue := Queue v1 @ [k]\<rparr>)
            else (n, v1)))"

definition AddDumpNode_Decl :: "ast \<Rightarrow> decl \<Rightarrow> bool \<Rightarrow> ASTVisitor \<Rightarrow> nat \<times> ASTVisitor" where
  "AddDumpNode_Decl a d complete v = AddDumpNodeImpl (KindDecl (getCanonicalDecl a d)) complete v"

definition AddDumpNode_Type :: "QualType \<Rightarrow> bool \<Rightarrow> ASTVisitor \<Rightarrow> nat \<times> ASTVisitor" where
  "AddDumpNode_Type t complete v = AddDumpNodeImpl (KindType t) complete v"

definition AddDumpFile :: "file_entry \<Rightarrow> ASTVisitor \<Rightarrow> nat \<times> ASTVisitor" where
  "AddDumpFile f v =
     (let index = (case map_of (FileNodes v) f of None \<Rightarrow> 0 | Some i \<Rightarrow> i) in
      if index = 0 then
        (let n = FileCount v + 1
         in (n, v\<lparr>FileCount := n, FileNodes := AList.update f n (FileNodes v),
                  FileQueue := FileQueue v @ [f]\<rparr>))
      else (index, v))"

text \<open>
  The sweep walks the declaration registry and then the type registry, each in the key
  order of its \<^verbatim>\<open>std::map\<close>, and pushes every node that is not complete.
\<close>

definition QueueIncompleteDumpNodes :: "ASTVisitor \<Rightarrow> ASTVisitor" where
  "QueueIncompleteDumpNodes v =
     v\<lparr>Queue := Queue v
         @ map (KindDecl \<circ> fst) (filter (\<lambda>e. \<not> Complete (snd e)) (sort_key fst (DeclNodes v)))
         @ map (KindType \<circ> fst)
             (filter (\<lambda>e. \<not> Complete (snd e)) (sort_key (getAsOpaquePtr \<circ> fst) (TypeNodes v)))\<rparr>"


section \<open>References and attributes\<close>

definition GetContextIdRef :: "ast \<Rightarrow> decl option \<Rightarrow> ASTVisitor \<Rightarrow> nat \<times> ASTVisitor" where
  "GetContextIdRef a dc v =
     (case dc of Some d \<Rightarrow> AddDumpNode_Decl a d False v | None \<Rightarrow> (0, v))"

text \<open>The result is the id with the three flags \<^verbatim>\<open>qc\<close>, \<^verbatim>\<open>qv\<close>, \<^verbatim>\<open>qr\<close>.\<close>

definition GetTypeIdRef ::
  "QualType \<Rightarrow> bool \<Rightarrow> ASTVisitor \<Rightarrow> (nat \<times> bool \<times> bool \<times> bool) \<times> ASTVisitor" where
  "GetTypeIdRef t complete v =
     (let (id0, v1) = AddDumpNode_Type t complete v;
          qc = isLocalConstQualified t;
          qv = isLocalVolatileQualified t;
          qr = isLocalRestrictQualified t
      in if hasLocalQualifiers t
         then (let (id1, v2) = AddDumpNode_Type (getLocalUnqualifiedType t) complete v1
               in ((id1, qc, qv, qr), v2))
         else ((id0, qc, qv, qr), v1))"

definition PrintTypeIdRef :: "QualType \<Rightarrow> bool \<Rightarrow> ASTVisitor \<Rightarrow> ASTVisitor" where
  \<open>PrintTypeIdRef t complete v =
     (let ((id, qc, qv, qr), v1) = GetTypeIdRef t complete v;
          c = (if qc then ''c'' else '''');
          v' = (if qv then ''v'' else '''');
          r = (if qr then ''r'' else '''')
      in v1\<lparr>OS := OS v1 @ ''_'' @ decimal id @ c @ v' @ r\<rparr>)\<close>

definition PrintIdAttribute :: "DumpNode \<Rightarrow> ASTVisitor \<Rightarrow> ASTVisitor" where
  \<open>PrintIdAttribute dn v = v\<lparr>OS := OS v @ '' id="_'' @ decimal (Index dn) @ ''"''\<rparr>\<close>

definition PrintNameAttribute :: "ast \<Rightarrow> string \<Rightarrow> ASTVisitor \<Rightarrow> ASTVisitor" where
  \<open>PrintNameAttribute a name v = v\<lparr>OS := OS v @ '' name="'' @ encodeXML a name @ ''"''\<rparr>\<close>

definition PrintTypeAttribute :: "QualType \<Rightarrow> bool \<Rightarrow> ASTVisitor \<Rightarrow> ASTVisitor" where
  \<open>PrintTypeAttribute t complete v =
     (let v1 = v\<lparr>OS := OS v @ '' type="''\<rparr>;
          v2 = PrintTypeIdRef t complete v1
      in v2\<lparr>OS := OS v2 @ ''"''\<rparr>)\<close>

definition PrintLocationAttribute :: "ast \<Rightarrow> decl \<Rightarrow> ASTVisitor \<Rightarrow> ASTVisitor" where
  \<open>PrintLocationAttribute a d v =
     (if \<not> getLocationIsValid a d then v
      else case getFileEntryForID a d of
        None \<Rightarrow> v
      | Some f \<Rightarrow>
          (let (id, v1) = AddDumpFile f v;
               line = getExpansionLineNumber a d
           in v1\<lparr>OS := OS v1 @ '' location="f'' @ decimal id @ '':'' @ decimal line @ ''"''
                    @ '' file="f'' @ decimal id @ ''"''
                    @ '' line="'' @ decimal line @ ''"''\<rparr>))\<close>

definition PrintContextAttribute :: "ast \<Rightarrow> decl \<Rightarrow> ASTVisitor \<Rightarrow> ASTVisitor" where
  \<open>PrintContextAttribute a d v =
     (let dc = getDeclContext a d;
          (id, v1) = GetContextIdRef a dc v
      in if id \<noteq> 0 then
           (let v2 = v1\<lparr>OS := OS v1 @ '' context="_'' @ decimal id @ ''"''\<rparr>
            in if (case dc of Some c \<Rightarrow> isRecord a c | None \<Rightarrow> False) then
                 (if getAccess a d = AS_private then v2\<lparr>OS := OS v2 @ '' access="private"''\<rparr>
                  else if getAccess a d = AS_protected
                    then v2\<lparr>OS := OS v2 @ '' access="protected"''\<rparr>
                    else v2\<lparr>OS := OS v2 @ '' access="public"''\<rparr>)
               else v2)
         else v1)\<close>

text \<open>
  The members a container lists: every direct child but an injected class name and an
  access specifier (the two \<^verbatim>\<open>continue\<close> branches of the loop).
\<close>

definition ignored_member :: "ast \<Rightarrow> decl \<Rightarrow> bool" where
  "ignored_member a d =
     (case getKind a d of
        CXXRecord \<Rightarrow> isInjectedClassName a d
      | AccessSpec \<Rightarrow> True
      | _ \<Rightarrow> False)"

text \<open>
  The first loop of \<^verbatim>\<open>PrintMembersAttribute\<close>. The \<^verbatim>\<open>std::set<unsigned int>\<close> is a
  sorted list without duplicates.
\<close>

fun members_loop :: "ast \<Rightarrow> decl list \<Rightarrow> nat list \<Rightarrow> ASTVisitor \<Rightarrow> nat list \<times> ASTVisitor" where
  "members_loop a [] emitted v = (emitted, v)"
| "members_loop a (d # ds) emitted v =
     (if ignored_member a d then members_loop a ds emitted v
      else (let (id, v1) = AddDumpNode_Decl a d True v
            in members_loop a ds (if id \<noteq> 0 then insort_insert id emitted else emitted) v1))"

text \<open>The second loop: the ids, each after the current separator.\<close>

fun members_text :: "string \<Rightarrow> nat list \<Rightarrow> string" where
  "members_text sep [] = []"
| "members_text sep (i # rest) = sep @ ''_'' @ decimal i @ members_text '' '' rest"

definition PrintMembersAttribute :: "ast \<Rightarrow> decl \<Rightarrow> ASTVisitor \<Rightarrow> ASTVisitor" where
  \<open>PrintMembersAttribute a dc v =
     (let (emitted, v1) = members_loop a (decls a dc) [] v
      in if emitted \<noteq> []
         then v1\<lparr>OS := OS v1 @ '' members="'' @ members_text '''' emitted @ ''"''\<rparr>
         else v1)\<close>


section \<open>Output routines and dispatch\<close>

definition OutputUnimplementedDecl :: "ast \<Rightarrow> decl \<Rightarrow> QueueEntry \<Rightarrow> ASTVisitor \<Rightarrow> ASTVisitor" where
  \<open>OutputUnimplementedDecl a d dn v =
     v\<lparr>OS := OS v @ ''  <Unimplemented id="_'' @ decimal (Index (GetDumpNode v dn))
            @ ''" kind="'' @ encodeXML a (getDeclKindName a d) @ ''"/>\<newline>''\<rparr>\<close>

definition OutputUnimplementedType :: "ast \<Rightarrow> QualType \<Rightarrow> QueueEntry \<Rightarrow> ASTVisitor \<Rightarrow> ASTVisitor" where
  \<open>OutputUnimplementedType a t dn v =
     v\<lparr>OS := OS v @ ''  <Unimplemented id="_'' @ decimal (Index (GetDumpNode v dn))
            @ ''" type_class="'' @ encodeXML a (getTypeClassName a t) @ ''"/>\<newline>''\<rparr>\<close>

definition OutputTranslationUnitDecl :: "ast \<Rightarrow> decl \<Rightarrow> QueueEntry \<Rightarrow> ASTVisitor \<Rightarrow> ASTVisitor" where
  \<open>OutputTranslationUnitDecl a d dn v =
     (let v1 = v\<lparr>OS := OS v @ ''  <Namespace''\<rparr>;
          v2 = PrintIdAttribute (GetDumpNode v1 dn) v1;
          v3 = PrintNameAttribute a ''::'' v2;
          v4 = (if Complete (GetDumpNode v3 dn) then PrintMembersAttribute a d v3 else v3)
      in v4\<lparr>OS := OS v4 @ ''/>\<newline>''\<rparr>)\<close>

definition OutputNamespaceDecl :: "ast \<Rightarrow> decl \<Rightarrow> QueueEntry \<Rightarrow> ASTVisitor \<Rightarrow> ASTVisitor" where
  \<open>OutputNamespaceDecl a d dn v =
     (let v1 = v\<lparr>OS := OS v @ ''  <Namespace''\<rparr>;
          v2 = PrintIdAttribute (GetDumpNode v1 dn) v1;
          v3 = PrintNameAttribute a (getName a d) v2;
          v4 = PrintContextAttribute a d v3;
          v5 = (if Complete (GetDumpNode v4 dn) then PrintMembersAttribute a d v4 else v4)
      in v5\<lparr>OS := OS v5 @ ''/>\<newline>''\<rparr>)\<close>

definition OutputTypedefDecl :: "ast \<Rightarrow> decl \<Rightarrow> QueueEntry \<Rightarrow> ASTVisitor \<Rightarrow> ASTVisitor" where
  \<open>OutputTypedefDecl a d dn v =
     (let v1 = v\<lparr>OS := OS v @ ''  <Typedef''\<rparr>;
          v2 = PrintIdAttribute (GetDumpNode v1 dn) v1;
          v3 = PrintNameAttribute a (getName a d) v2;
          v4 = PrintTypeAttribute (getTypeSourceInfoType a d) (Complete (GetDumpNode v3 dn)) v3;
          v5 = PrintContextAttribute a d v4;
          v6 = PrintLocationAttribute a d v5
      in v6\<lparr>OS := OS v6 @ ''/>\<newline>''\<rparr>)\<close>

text \<open>
  \<^verbatim>\<open>OutputDecl\<close> switches on the kind. The three routines that \<^verbatim>\<open>ASTVisitor\<close> declares
  hide the ones the macro generates in the base class; every other kind reaches
  \<^verbatim>\<open>OutputUnimplementedDecl\<close>.
\<close>

definition OutputDecl :: "ast \<Rightarrow> decl \<Rightarrow> QueueEntry \<Rightarrow> ASTVisitor \<Rightarrow> ASTVisitor" where
  "OutputDecl a d dn v =
     (case getKind a d of
        TranslationUnit \<Rightarrow> OutputTranslationUnitDecl a d dn v
      | Namespace \<Rightarrow> OutputNamespaceDecl a d dn v
      | Typedef \<Rightarrow> OutputTypedefDecl a d dn v
      | _ \<Rightarrow> OutputUnimplementedDecl a d dn v)"

text \<open>The body of \<^verbatim>\<open>OutputCvQualifiedType\<close> is a TODO comment: it writes nothing.\<close>

definition OutputCvQualifiedType :: "QualType \<Rightarrow> QueueEntry \<Rightarrow> ASTVisitor \<Rightarrow> ASTVisitor" where
  "OutputCvQualifiedType t dn v = v"

definition OutputType :: "ast \<Rightarrow> QualType \<Rightarrow> QueueEntry \<Rightarrow> ASTVisitor \<Rightarrow> ASTVisitor" where
  "OutputType a t dn v =
     (if hasLocalQualifiers t then OutputCvQualifiedType t dn v
      else OutputUnimplementedType a t dn v)"


section \<open>The queues\<close>

text \<open>One iteration of the loop of \<^verbatim>\<open>ProcessQueue\<close>, after the entry is popped.\<close>

fun dispatch :: "ast \<Rightarrow> QueueEntry \<Rightarrow> ASTVisitor \<Rightarrow> ASTVisitor" where
  "dispatch a (KindDecl d) v = OutputDecl a d (KindDecl d) v"
| "dispatch a (KindType t) v = OutputType a t (KindType t) v"

text \<open>
  Output routines push new entries while the loop runs, so the loop need not end on an
  arbitrary \<open>ast\<close>: not returning is \<open>None\<close>.
\<close>

partial_function (option) ProcessQueue :: "ast \<Rightarrow> ASTVisitor \<Rightarrow> ASTVisitor option" where
  "ProcessQueue a v =
     (case Queue v of
        [] \<Rightarrow> Some v
      | qe # rest \<Rightarrow> ProcessQueue a (dispatch a qe (v\<lparr>Queue := rest\<rparr>)))"

fun ProcessFileQueue_loop :: "ast \<Rightarrow> file_entry list \<Rightarrow> ASTVisitor \<Rightarrow> ASTVisitor" where
  \<open>ProcessFileQueue_loop a [] v = v\<close>
| \<open>ProcessFileQueue_loop a (f # rest) v =
     ProcessFileQueue_loop a rest
       (v\<lparr>FileQueue := rest,
          OS := OS v @ ''  <File id="f''
                @ decimal (case map_of (FileNodes v) f of None \<Rightarrow> 0 | Some i \<Rightarrow> i)
                @ ''" name="'' @ encodeXML a (getFileName a f) @ ''"/>\<newline>''\<rparr>)\<close>

definition ProcessFileQueue :: "ast \<Rightarrow> ASTVisitor \<Rightarrow> ASTVisitor" where
  "ProcessFileQueue a v = ProcessFileQueue_loop a (FileQueue v) v"


section \<open>Start names and the driver\<close>

text \<open>\<^verbatim>\<open>name.find("::")\<close>: the first position at which two colons stand, if any.\<close>

fun find_scope :: "string \<Rightarrow> nat option" where
  "find_scope (c1 # c2 # cs) =
     (if c1 = CHR '':'' \<and> c2 = CHR '':'' then Some 0 else map_option Suc (find_scope (c2 # cs)))"
| "find_scope _ = None"

function LookupStart :: "ast \<Rightarrow> decl \<Rightarrow> string \<Rightarrow> ASTVisitor \<Rightarrow> ASTVisitor" where
  "LookupStart a dc name v =
     (case find_scope name of
        None \<Rightarrow> fold (\<lambda>d v'. snd (AddDumpNode_Decl a d True v')) (lookup a dc name) v
      | Some pos \<Rightarrow>
          fold (\<lambda>d v'. if isDeclContext a d then LookupStart a d (drop (pos + 2) name) v' else v')
            (lookup a dc (take pos name)) v)"
  by pat_completeness auto
termination
proof (relation "measure (\<lambda>(a, dc, name, v). length name)", goal_cases)
  case 1
  show ?case by simp
next
  case 2
  have "find_scope n = Some p \<Longrightarrow> p + 2 \<le> length n" for n p
    by (induction n arbitrary: p rule: find_scope.induct) (auto split: if_splits)
  from this [OF 2(1)] show ?case by simp
qed

declare LookupStart.simps [simp del]

definition xml_header :: string where
  \<open>xml_header =
     ''<?xml version="1.0"?>\<newline><GCC_XML version="0.9.0" cvs_revision="1.136">\<newline>''\<close>

definition xml_footer :: string where
  \<open>xml_footer = ''</GCC_XML>\<newline>''\<close>

text \<open>
  The first statement of \<^verbatim>\<open>HandleTranslationUnit\<close>: the nodes the dump starts from.
\<close>

definition add_start_nodes :: "ast \<Rightarrow> string list \<Rightarrow> decl \<Rightarrow> ASTVisitor \<Rightarrow> ASTVisitor" where
  "add_start_nodes a StartNames tu v =
     (if StartNames \<noteq> [] then fold (\<lambda>name v'. LookupStart a tu name v') StartNames v
      else snd (AddDumpNode_Decl a tu True v))"

definition HandleTranslationUnit ::
  "ast \<Rightarrow> string list \<Rightarrow> decl \<Rightarrow> ASTVisitor \<Rightarrow> ASTVisitor option" where
  "HandleTranslationUnit a StartNames tu v =
     (let v1 = add_start_nodes a StartNames tu v;
          v2 = v1\<lparr>OS := OS v1 @ xml_header\<rparr>
      in case ProcessQueue a v2 of
           None \<Rightarrow> None
         | Some v3 \<Rightarrow>
             (case ProcessQueue a (QueueIncompleteDumpNodes (v3\<lparr>RequireComplete := False\<rparr>)) of
                None \<Rightarrow> None
              | Some v4 \<Rightarrow>
                  (let v5 = ProcessFileQueue a v4
                   in Some (v5\<lparr>OS := OS v5 @ xml_footer\<rparr>))))"

definition outputXML :: "ast \<Rightarrow> string list \<Rightarrow> ASTVisitor option" where
  "outputXML a startNames =
     HandleTranslationUnit a startNames (getTranslationUnitDecl a) ASTVisitor_init"


section \<open>Invariants of a dump\<close>

text \<open>
  The keys a dump of the AST \<open>a\<close> can register: canonical declarations, the types of
  typedefs and their unqualified forms. An AST is finite when it has finitely many
  canonical declarations and typedef types; then these keys are finitely many.
\<close>

definition keys_of :: "ast \<Rightarrow> QueueEntry set" where
  "keys_of a =
     KindDecl ` range (getCanonicalDecl a)
     \<union> KindType ` (range (getTypeSourceInfoType a)
          \<union> getLocalUnqualifiedType ` range (getTypeSourceInfoType a))"

definition finite_ast :: "ast \<Rightarrow> bool" where
  "finite_ast a = (finite (range (getCanonicalDecl a)) \<and> finite (range (getTypeSourceInfoType a)))"

text \<open>
  The measure by which \<^verbatim>\<open>ProcessQueue\<close> ends: an unseen key can still be queued twice
  (when registered and when upgraded), an incomplete one once, and every queue entry is
  one iteration.
\<close>

definition pending :: "DumpNode \<Rightarrow> nat" where
  "pending dn = (if Index dn = 0 then 2 else if Complete dn then 0 else 1)"

definition work :: "ast \<Rightarrow> ASTVisitor \<Rightarrow> nat" where
  "work a v = (\<Sum>k\<in>keys_of a. pending (GetDumpNode v k)) + length (Queue v)"

text \<open>The registries are maps: no key occurs twice.\<close>

definition wf_registry :: "ASTVisitor \<Rightarrow> bool" where
  "wf_registry v = (distinct (map fst (DeclNodes v)) \<and> distinct (map fst (TypeNodes v)))"

text \<open>
  \<^verbatim>\<open>FileNodes[f]\<close>, and the invariant of the file queue: it holds the files of the indices
  1 to \<open>FileCount\<close>, in this order.
\<close>

definition file_index :: "(file_entry \<times> nat) list \<Rightarrow> file_entry \<Rightarrow> nat" where
  "file_index fn f = (case map_of fn f of None \<Rightarrow> 0 | Some i \<Rightarrow> i)"

definition file_inv :: "ASTVisitor \<Rightarrow> bool" where
  "file_inv v = (map (file_index (FileNodes v)) (FileQueue v) = map Suc [0..<FileCount v])"

text \<open>
  What every operation of the visitor does to the state: the measure does not grow,
  \<open>RequireComplete\<close> is untouched, the queue and the output are only appended to, and the
  two invariants are kept.
\<close>

definition evolves :: "ast \<Rightarrow> ASTVisitor \<Rightarrow> ASTVisitor \<Rightarrow> bool" where
  "evolves a v v' =
     (work a v' \<le> work a v \<and> RequireComplete v' = RequireComplete v
      \<and> prefix (Queue v) (Queue v') \<and> prefix (OS v) (OS v')
      \<and> (wf_registry v \<longrightarrow> wf_registry v') \<and> (file_inv v \<longrightarrow> file_inv v'))"

text \<open>What a whole run of the loop of \<^verbatim>\<open>ProcessQueue\<close> does.\<close>

definition drains :: "ASTVisitor \<Rightarrow> ASTVisitor \<Rightarrow> bool" where
  "drains v v' =
     (Queue v' = [] \<and> RequireComplete v' = RequireComplete v \<and> prefix (OS v) (OS v')
      \<and> (wf_registry v \<longrightarrow> wf_registry v') \<and> (file_inv v \<longrightarrow> file_inv v'))"

text \<open>Registered nodes keep their index, and complete ones stay complete.\<close>

definition keeps :: "ASTVisitor \<Rightarrow> ASTVisitor \<Rightarrow> bool" where
  "keeps v v' =
     (\<forall>k. Index (GetDumpNode v k) \<noteq> 0 \<longrightarrow>
        Index (GetDumpNode v' k) = Index (GetDumpNode v k)
        \<and> (Complete (GetDumpNode v k) \<longrightarrow> Complete (GetDumpNode v' k)))"

text \<open>The identities that have a node in a registry.\<close>

fun registered :: "ASTVisitor \<Rightarrow> QueueEntry \<Rightarrow> bool" where
  "registered v (KindDecl d) = (d \<in> fst ` set (DeclNodes v))"
| "registered v (KindType t) = (t \<in> fst ` set (TypeNodes v))"

text \<open>The element \<^verbatim>\<open>ProcessFileQueue\<close> writes for the file \<open>f\<close> of index \<open>i\<close>.\<close>

definition File_element :: "ast \<Rightarrow> nat \<Rightarrow> file_entry \<Rightarrow> string" where
  \<open>File_element a i f =
     ''  <File id="f'' @ decimal i @ ''" name="'' @ encodeXML a (getFileName a f) @ ''"/>\<newline>''\<close>


section \<open>The start set\<close>

text \<open>
  The start set as the specification words it, to compare \<^verbatim>\<open>LookupStart\<close> with: split the
  name at its first scope separator and look the leading segment up in the container;
  with nothing after it, every match belongs to the set; otherwise the set is gathered, with
  the rest of the name, from every match that is itself a container.
\<close>

function start_set :: "ast \<Rightarrow> decl \<Rightarrow> string \<Rightarrow> decl list" where
  "start_set a dc name =
     (case find_scope name of
        None \<Rightarrow> lookup a dc name
      | Some pos \<Rightarrow>
          concat (map (\<lambda>d. if isDeclContext a d then start_set a d (drop (pos + 2) name) else [])
            (lookup a dc (take pos name))))"
  by pat_completeness auto
termination
proof (relation "measure (\<lambda>(a, dc, name). length name)", goal_cases)
  case 1
  show ?case by simp
next
  case 2
  have "find_scope n = Some p \<Longrightarrow> p + 2 \<le> length n" for n p
    by (induction n arbitrary: p rule: find_scope.induct) (auto split: if_splits)
  from this [OF 2(1)] show ?case by simp
qed


section \<open>Example inputs\<close>

text \<open>The type \<open>T\<close> is the type node 7; \<open>const T\<close> and \<open>volatile const T\<close> qualify it.\<close>

definition const_T :: QualType where
  "const_T = \<lparr>TypePtr = 7, LocalConst = True, LocalVolatile = False, LocalRestrict = False\<rparr>"


definition plain_T :: QualType where
  "plain_T = \<lparr>TypePtr = 7, LocalConst = False, LocalVolatile = False, LocalRestrict = False\<rparr>"


text \<open>An AST whose declarations all are of a kind without an output routine.\<close>

definition one_decl_ast :: ast where
  "one_decl_ast =
     \<lparr>getTranslationUnitDecl = 1, getCanonicalDecl = (\<lambda>d. d), getKind = (\<lambda>d. OtherDecl),
      getDeclKindName = (\<lambda>d. ''Var''), getTypeClassName = (\<lambda>t. ''Builtin''),
      decls = (\<lambda>d. []), isInjectedClassName = (\<lambda>d. False), getName = (\<lambda>d. ''x''),
      getDeclContext = (\<lambda>d. None), isRecord = (\<lambda>d. False), getAccess = (\<lambda>d. AS_none),
      getTypeSourceInfoType = (\<lambda>d. plain_T), getLocationIsValid = (\<lambda>d. False),
      getFileEntryForID = (\<lambda>d. None), getExpansionLineNumber = (\<lambda>d. 0),
      getFileName = (\<lambda>f. ''a.cxx''), lookup = (\<lambda>d n. []), isDeclContext = (\<lambda>d. False),
      encodeXML = (\<lambda>s. s)\<rparr>"

text \<open>A namespace whose children are a variable, an access specifier, a second declaration
  of the same variable, an injected class name and a typedef.\<close>

definition members_ast :: ast where
  "members_ast =
     \<lparr>getTranslationUnitDecl = 1,
      getCanonicalDecl = (\<lambda>d. if d = 40 then 20 else d),
      getKind = (\<lambda>d. if d = 30 then AccessSpec else if d = 50 then CXXRecord
                     else if d = 10 then Typedef else OtherDecl),
      getDeclKindName = (\<lambda>d. ''Var''), getTypeClassName = (\<lambda>t. ''Builtin''),
      decls = (\<lambda>d. if d = 1 then [20, 30, 40, 50, 10] else if d = 2 then [30, 50] else []),
      isInjectedClassName = (\<lambda>d. d = 50), getName = (\<lambda>d. ''x''),
      getDeclContext = (\<lambda>d. None), isRecord = (\<lambda>d. False), getAccess = (\<lambda>d. AS_none),
      getTypeSourceInfoType = (\<lambda>d. plain_T), getLocationIsValid = (\<lambda>d. False),
      getFileEntryForID = (\<lambda>d. None), getExpansionLineNumber = (\<lambda>d. 0),
      getFileName = (\<lambda>f. ''a.cxx''), lookup = (\<lambda>d n. []), isDeclContext = (\<lambda>d. False),
      encodeXML = (\<lambda>s. s)\<rparr>"

text \<open>A state in which declaration 10 has the index 1 and declaration 20 is unseen.\<close>

definition members_state :: ASTVisitor where
  "members_state = ASTVisitor_init\<lparr>NodeCount := 1, DeclNodes := [(10, \<lparr>Index = 1, Complete = False\<rparr>)]\<rparr>"

text \<open>
  A translation unit with the namespace \<open>N\<close> (declaration 2), which holds two declarations
  named \<open>C\<close> (3 and 4) and one named \<open>D\<close> (5).
\<close>

definition lookup_ast :: ast where
  "lookup_ast =
     \<lparr>getTranslationUnitDecl = 1, getCanonicalDecl = (\<lambda>d. if d < 6 then d else 0),
      getKind = (\<lambda>d. if d = 1 then TranslationUnit else if d = 2 then Namespace else OtherDecl),
      getDeclKindName = (\<lambda>d. ''Var''), getTypeClassName = (\<lambda>t. ''Builtin''),
      decls = (\<lambda>d. if d = 1 then [2] else if d = 2 then [3, 4, 5] else []),
      isInjectedClassName = (\<lambda>d. False), getName = (\<lambda>d. if d = 2 then ''N'' else ''C''),
      getDeclContext = (\<lambda>d. if d = 2 then Some 1 else if d = 1 then None else Some 2),
      isRecord = (\<lambda>d. False), getAccess = (\<lambda>d. AS_none),
      getTypeSourceInfoType = (\<lambda>d. plain_T), getLocationIsValid = (\<lambda>d. False),
      getFileEntryForID = (\<lambda>d. None), getExpansionLineNumber = (\<lambda>d. 0),
      getFileName = (\<lambda>f. ''a.cxx''),
      lookup = (\<lambda>d n. if d = 1 \<and> n = ''N'' then [2] else if d = 2 \<and> n = ''C'' then [3, 4]
                      else if d = 2 \<and> n = ''D'' then [5] else []),
      isDeclContext = (\<lambda>d. d = 1 \<or> d = 2), encodeXML = (\<lambda>s. s)\<rparr>"

text \<open>
  Two namespaces \<open>A\<close> (declaration 20) and \<open>B\<close> (declaration 10) of the translation unit
  (declaration 1); \<open>A\<close> holds the namespace \<open>x\<close> (30) and \<open>B\<close> the namespace \<open>y\<close> (40).
  Declarations are the addresses below 50.
\<close>

definition order_ast :: ast where
  "order_ast =
     \<lparr>getTranslationUnitDecl = 1, getCanonicalDecl = (\<lambda>d. if d < 50 then d else 0),
      getKind = (\<lambda>d. if d = 1 then TranslationUnit else Namespace),
      getDeclKindName = (\<lambda>d. ''Namespace''), getTypeClassName = (\<lambda>t. ''Builtin''),
      decls = (\<lambda>d. if d = 1 then [20, 10] else if d = 20 then [30] else if d = 10 then [40]
                    else []),
      isInjectedClassName = (\<lambda>d. False),
      getName = (\<lambda>d. if d = 20 then ''A'' else if d = 10 then ''B'' else if d = 30 then ''x''
                      else ''y''),
      getDeclContext = (\<lambda>d. if d = 30 then Some 20 else if d = 40 then Some 10
                             else if d = 1 then None else Some 1),
      isRecord = (\<lambda>d. False), getAccess = (\<lambda>d. AS_none),
      getTypeSourceInfoType = (\<lambda>d. plain_T), getLocationIsValid = (\<lambda>d. False),
      getFileEntryForID = (\<lambda>d. None), getExpansionLineNumber = (\<lambda>d. 0),
      getFileName = (\<lambda>f. ''a.cxx''),
      lookup = (\<lambda>d n. if d = 1 \<and> n = ''A'' then [20] else if d = 1 \<and> n = ''B'' then [10]
                      else if d = 20 \<and> n = ''x'' then [30]
                      else if d = 10 \<and> n = ''y'' then [40] else []),
      isDeclContext = (\<lambda>d. True), encodeXML = (\<lambda>s. s)\<rparr>"

text \<open>
  The translation unit (declaration 1) of \<^verbatim>\<open>typedef const int T;\<close>: the typedef is
  declaration 2, at line 1 of the file 9, and \<open>int\<close> is the type node 7.
\<close>

definition typedef_ast :: ast where
  "typedef_ast =
     \<lparr>getTranslationUnitDecl = 1, getCanonicalDecl = (\<lambda>d. if d < 3 then d else 0),
      getKind = (\<lambda>d. if d = 1 then TranslationUnit else Typedef),
      getDeclKindName = (\<lambda>d. ''Typedef''), getTypeClassName = (\<lambda>t. ''Builtin''),
      decls = (\<lambda>d. if d = 1 then [2] else []),
      isInjectedClassName = (\<lambda>d. False), getName = (\<lambda>d. ''T''),
      getDeclContext = (\<lambda>d. if d = 2 then Some 1 else None),
      isRecord = (\<lambda>d. False), getAccess = (\<lambda>d. AS_none),
      getTypeSourceInfoType = (\<lambda>d. const_T), getLocationIsValid = (\<lambda>d. True),
      getFileEntryForID = (\<lambda>d. Some 9), getExpansionLineNumber = (\<lambda>d. 1),
      getFileName = (\<lambda>f. ''t.cxx''), lookup = (\<lambda>d n. []), isDeclContext = (\<lambda>d. d = 1),
      encodeXML = (\<lambda>s. s)\<rparr>"

named_theorems evolves_intros


section \<open>Registry lemmas\<close>

lemma GetDumpNode_SetDumpNode:
  "GetDumpNode (SetDumpNode k dn v) k' = (if k' = k then dn else GetDumpNode v k')"
  by (cases k; cases k') (simp_all add: update_conv')

lemma SetDumpNode_fields [simp]:
  "NodeCount (SetDumpNode k dn v) = NodeCount v"
  "FileCount (SetDumpNode k dn v) = FileCount v"
  "RequireComplete (SetDumpNode k dn v) = RequireComplete v"
  "FileNodes (SetDumpNode k dn v) = FileNodes v"
  "Queue (SetDumpNode k dn v) = Queue v"
  "FileQueue (SetDumpNode k dn v) = FileQueue v"
  "OS (SetDumpNode k dn v) = OS v"
  by (cases k; simp)+

lemma GetDumpNode_upd [simp]:
  "GetDumpNode (v\<lparr>Queue := q\<rparr>) k = GetDumpNode v k"
  "GetDumpNode (v\<lparr>NodeCount := n\<rparr>) k = GetDumpNode v k"
  "GetDumpNode (v\<lparr>OS := os\<rparr>) k = GetDumpNode v k"
  "GetDumpNode (v\<lparr>RequireComplete := b\<rparr>) k = GetDumpNode v k"
  "GetDumpNode (v\<lparr>FileCount := n\<rparr>) k = GetDumpNode v k"
  "GetDumpNode (v\<lparr>FileNodes := fn\<rparr>) k = GetDumpNode v k"
  "GetDumpNode (v\<lparr>FileQueue := fq\<rparr>) k = GetDumpNode v k"
  by (cases k; simp)+

lemma wf_registry_SetDumpNode: "wf_registry v \<Longrightarrow> wf_registry (SetDumpNode k dn v)"
  by (cases k) (simp_all add: wf_registry_def distinct_update)

lemma wf_registry_upd [simp]:
  "wf_registry (v\<lparr>Queue := q\<rparr>) = wf_registry v"
  "wf_registry (v\<lparr>NodeCount := n\<rparr>) = wf_registry v"
  "wf_registry (v\<lparr>OS := os\<rparr>) = wf_registry v"
  "wf_registry (v\<lparr>RequireComplete := b\<rparr>) = wf_registry v"
  "wf_registry (v\<lparr>FileCount := n\<rparr>) = wf_registry v"
  "wf_registry (v\<lparr>FileNodes := fn\<rparr>) = wf_registry v"
  "wf_registry (v\<lparr>FileQueue := fq\<rparr>) = wf_registry v"
  by (simp_all add: wf_registry_def)

lemma file_inv_upd [simp]:
  "file_inv (v\<lparr>Queue := q\<rparr>) = file_inv v"
  "file_inv (v\<lparr>NodeCount := n\<rparr>) = file_inv v"
  "file_inv (v\<lparr>OS := os\<rparr>) = file_inv v"
  "file_inv (v\<lparr>RequireComplete := b\<rparr>) = file_inv v"
  "file_inv (v\<lparr>DeclNodes := dns\<rparr>) = file_inv v"
  "file_inv (v\<lparr>TypeNodes := tns\<rparr>) = file_inv v"
  by (simp_all add: file_inv_def)

lemma file_inv_SetDumpNode [simp]: "file_inv (SetDumpNode k dn v) = file_inv v"
  by (cases k) simp_all

declare GetDumpNode.simps [simp del] SetDumpNode.simps [simp del]

lemma finite_keys_of: "finite_ast a \<Longrightarrow> finite (keys_of a)"
  by (simp add: finite_ast_def keys_of_def)

lemma AddDumpNodeImpl_other:
  "k' \<noteq> k \<Longrightarrow> GetDumpNode (snd (AddDumpNodeImpl k c v)) k' = GetDumpNode v k'"
  by (simp add: AddDumpNodeImpl_def Let_def GetDumpNode_SetDumpNode)

lemma work_AddDumpNodeImpl:
  assumes fin: "finite (keys_of a)" and k: "k \<in> keys_of a"
  shows "work a (snd (AddDumpNodeImpl k c v)) \<le> work a v"
proof -
  let ?v' = "snd (AddDumpNodeImpl k c v)"
  have "(\<Sum>k'\<in>keys_of a. pending (GetDumpNode ?v' k'))
        = pending (GetDumpNode ?v' k) + (\<Sum>k'\<in>keys_of a - {k}. pending (GetDumpNode ?v' k'))"
    by (rule sum.remove [OF fin k])
  also have "(\<Sum>k'\<in>keys_of a - {k}. pending (GetDumpNode ?v' k'))
        = (\<Sum>k'\<in>keys_of a - {k}. pending (GetDumpNode v k'))"
    by (rule sum.cong) (auto simp: AddDumpNodeImpl_other)
  finally have new: "(\<Sum>k'\<in>keys_of a. pending (GetDumpNode ?v' k'))
        = pending (GetDumpNode ?v' k) + (\<Sum>k'\<in>keys_of a - {k}. pending (GetDumpNode v k'))" .
  have old: "(\<Sum>k'\<in>keys_of a. pending (GetDumpNode v k'))
        = pending (GetDumpNode v k) + (\<Sum>k'\<in>keys_of a - {k}. pending (GetDumpNode v k'))"
    by (rule sum.remove [OF fin k])
  have "pending (GetDumpNode ?v' k) + length (Queue ?v')
        \<le> pending (GetDumpNode v k) + length (Queue v)"
    by (simp add: AddDumpNodeImpl_def Let_def GetDumpNode_SetDumpNode pending_def)
  with new old show ?thesis
    unfolding work_def by linarith
qed

lemma evolves_refl: "evolves a v v"
  by (simp add: evolves_def)

lemma evolves_trans: "evolves a v v1 \<Longrightarrow> evolves a v1 v2 \<Longrightarrow> evolves a v v2"
  unfolding evolves_def by (meson order_trans prefix_order.order_trans)

lemma work_OS [simp]: "work a (v\<lparr>OS := os\<rparr>) = work a v"
  by (simp add: work_def)

lemma evolves_OS: "evolves a v (v\<lparr>OS := OS v @ x\<rparr>)"
  by (simp add: evolves_def)

lemma evolves_AddDumpNodeImpl:
  assumes "finite_ast a" and "k \<in> keys_of a"
  shows "evolves a v (snd (AddDumpNodeImpl k c v))"
proof -
  have "work a (snd (AddDumpNodeImpl k c v)) \<le> work a v"
    using assms by (simp add: work_AddDumpNodeImpl finite_keys_of)
  moreover have "RequireComplete (snd (AddDumpNodeImpl k c v)) = RequireComplete v"
    "prefix (Queue v) (Queue (snd (AddDumpNodeImpl k c v)))"
    "OS (snd (AddDumpNodeImpl k c v)) = OS v"
    "wf_registry v \<Longrightarrow> wf_registry (snd (AddDumpNodeImpl k c v))"
    "file_inv (snd (AddDumpNodeImpl k c v)) = file_inv v"
    by (simp_all add: AddDumpNodeImpl_def Let_def wf_registry_SetDumpNode)
  ultimately show ?thesis
    by (simp add: evolves_def)
qed

lemma file_inv_AddDumpFile:
  assumes "file_inv v"
  shows "file_inv (snd (AddDumpFile f v))"
proof (cases "file_index (FileNodes v) f = 0")
  case False
  then show ?thesis using assms by (simp add: AddDumpFile_def file_index_def Let_def)
next
  case True
  have "file_index (FileNodes v) f' \<noteq> 0" if "f' \<in> set (FileQueue v)" for f'
  proof -
    from that have "file_index (FileNodes v) f' \<in> set (map (file_index (FileNodes v)) (FileQueue v))"
      unfolding set_map by (rule imageI)
    also have "\<dots> = set (map Suc [0..<FileCount v])"
      using assms by (simp only: file_inv_def)
    finally show ?thesis by auto
  qed
  from this [of f] True have ne: "f \<notin> set (FileQueue v)"
    by blast
  have "map (file_index (AList.update f (Suc (FileCount v)) (FileNodes v))) (FileQueue v)
          = map (file_index (FileNodes v)) (FileQueue v)"
    using ne by (intro map_cong) (auto simp: update_conv' file_index_def)
  with assms have old: "map (file_index (AList.update f (Suc (FileCount v)) (FileNodes v)))
          (FileQueue v) = map Suc [0..<FileCount v]"
    by (simp only: file_inv_def)
  have new: "file_index (AList.update f (Suc (FileCount v)) (FileNodes v)) f = Suc (FileCount v)"
    by (simp add: file_index_def update_conv')
  have "snd (AddDumpFile f v) =
          v\<lparr>FileCount := Suc (FileCount v),
            FileNodes := AList.update f (Suc (FileCount v)) (FileNodes v),
            FileQueue := FileQueue v @ [f]\<rparr>"
    using True by (simp add: AddDumpFile_def file_index_def Let_def)
  then show ?thesis
    by (simp add: file_inv_def old new)
qed

lemma evolves_AddDumpFile: "evolves a v (snd (AddDumpFile f v))"
proof -
  have "work a (snd (AddDumpFile f v)) = work a v"
    by (simp add: AddDumpFile_def Let_def work_def)
  moreover have "RequireComplete (snd (AddDumpFile f v)) = RequireComplete v"
    "Queue (snd (AddDumpFile f v)) = Queue v" "OS (snd (AddDumpFile f v)) = OS v"
    "wf_registry (snd (AddDumpFile f v)) = wf_registry v"
    by (simp_all add: AddDumpFile_def Let_def)
  ultimately show ?thesis
    by (simp add: evolves_def file_inv_AddDumpFile)
qed

lemma evolves_OS_append [evolves_intros]:
  "evolves a v w \<Longrightarrow> evolves a v (w\<lparr>OS := OS w @ x\<rparr>)"
  by (erule evolves_trans) (rule evolves_OS)

lemma keys_of_decl: "KindDecl (getCanonicalDecl a d) \<in> keys_of a"
  by (simp add: keys_of_def)

lemma keys_of_type: "KindType (getTypeSourceInfoType a d) \<in> keys_of a"
  by (simp add: keys_of_def)

lemma keys_of_unqualified:
  "KindType (getLocalUnqualifiedType (getTypeSourceInfoType a d)) \<in> keys_of a"
  by (simp add: keys_of_def)

lemma evolves_AddDumpNode_Decl [evolves_intros]:
  "finite_ast a \<Longrightarrow> evolves a v w \<Longrightarrow> evolves a v (snd (AddDumpNode_Decl a d c w))"
  unfolding AddDumpNode_Decl_def
  by (erule evolves_trans) (simp add: evolves_AddDumpNodeImpl keys_of_decl)

lemma evolves_GetContextIdRef [evolves_intros]:
  "finite_ast a \<Longrightarrow> evolves a v w \<Longrightarrow> evolves a v (snd (GetContextIdRef a dc w))"
  by (cases dc) (simp_all add: GetContextIdRef_def evolves_AddDumpNode_Decl)

lemma evolves_GetTypeIdRef [evolves_intros]:
  assumes "finite_ast a" and "evolves a v w"
  shows "evolves a v (snd (GetTypeIdRef (getTypeSourceInfoType a d) c w))"
proof -
  let ?t = "getTypeSourceInfoType a d"
  let ?w1 = "snd (AddDumpNodeImpl (KindType ?t) c w)"
  have 1: "evolves a v ?w1"
    using assms by (blast intro: evolves_trans evolves_AddDumpNodeImpl keys_of_type)
  then have 2: "evolves a v (snd (AddDumpNodeImpl (KindType (getLocalUnqualifiedType ?t)) c ?w1))"
    using assms(1) by (blast intro: evolves_trans evolves_AddDumpNodeImpl keys_of_unqualified)
  show ?thesis
    using 1 2 by (simp add: GetTypeIdRef_def AddDumpNode_Type_def split_beta Let_def)
qed

lemma evolves_PrintTypeIdRef [evolves_intros]:
  "finite_ast a \<Longrightarrow> evolves a v w \<Longrightarrow>
     evolves a v (PrintTypeIdRef (getTypeSourceInfoType a d) c w)"
  unfolding PrintTypeIdRef_def split_beta Let_def
  by (intro evolves_intros)

lemma evolves_PrintTypeAttribute [evolves_intros]:
  "finite_ast a \<Longrightarrow> evolves a v w \<Longrightarrow>
     evolves a v (PrintTypeAttribute (getTypeSourceInfoType a d) c w)"
  unfolding PrintTypeAttribute_def Let_def
  by (intro evolves_intros)

lemma evolves_PrintIdAttribute [evolves_intros]:
  "evolves a v w \<Longrightarrow> evolves a v (PrintIdAttribute dn w)"
  unfolding PrintIdAttribute_def by (intro evolves_intros)

lemma evolves_PrintNameAttribute [evolves_intros]:
  "evolves a v w \<Longrightarrow> evolves a v (PrintNameAttribute a name w)"
  unfolding PrintNameAttribute_def by (intro evolves_intros)

lemma evolves_AddDumpFile' [evolves_intros]:
  "evolves a v w \<Longrightarrow> evolves a v (snd (AddDumpFile f w))"
  by (erule evolves_trans) (rule evolves_AddDumpFile)

lemma evolves_PrintLocationAttribute [evolves_intros]:
  "evolves a v w \<Longrightarrow> evolves a v (PrintLocationAttribute a d w)"
  unfolding PrintLocationAttribute_def split_beta Let_def
  by (auto split: option.split intro!: evolves_intros)

lemma evolves_PrintContextAttribute [evolves_intros]:
  "finite_ast a \<Longrightarrow> evolves a v w \<Longrightarrow> evolves a v (PrintContextAttribute a d w)"
  unfolding PrintContextAttribute_def split_beta Let_def
  by (auto intro!: evolves_intros)

lemma evolves_members_loop [evolves_intros]:
  "finite_ast a \<Longrightarrow> evolves a v w \<Longrightarrow> evolves a v (snd (members_loop a ds emitted w))"
  by (induction ds arbitrary: emitted w) (auto simp: split_beta intro!: evolves_intros)

lemma evolves_PrintMembersAttribute [evolves_intros]:
  "finite_ast a \<Longrightarrow> evolves a v w \<Longrightarrow> evolves a v (PrintMembersAttribute a dc w)"
  unfolding PrintMembersAttribute_def split_beta Let_def
  by (auto intro!: evolves_intros)

lemma evolves_OutputUnimplementedDecl [evolves_intros]:
  "evolves a v w \<Longrightarrow> evolves a v (OutputUnimplementedDecl a d dn w)"
  unfolding OutputUnimplementedDecl_def by (intro evolves_intros)

lemma evolves_OutputUnimplementedType [evolves_intros]:
  "evolves a v w \<Longrightarrow> evolves a v (OutputUnimplementedType a t dn w)"
  unfolding OutputUnimplementedType_def by (intro evolves_intros)

lemma evolves_OutputTranslationUnitDecl [evolves_intros]:
  "finite_ast a \<Longrightarrow> evolves a v w \<Longrightarrow> evolves a v (OutputTranslationUnitDecl a d dn w)"
  unfolding OutputTranslationUnitDecl_def Let_def
  by (auto intro!: evolves_intros)

lemma evolves_OutputNamespaceDecl [evolves_intros]:
  "finite_ast a \<Longrightarrow> evolves a v w \<Longrightarrow> evolves a v (OutputNamespaceDecl a d dn w)"
  unfolding OutputNamespaceDecl_def Let_def
  by (auto intro!: evolves_intros)

lemma evolves_OutputTypedefDecl [evolves_intros]:
  "finite_ast a \<Longrightarrow> evolves a v w \<Longrightarrow> evolves a v (OutputTypedefDecl a d dn w)"
  unfolding OutputTypedefDecl_def Let_def
  by (intro evolves_intros)

lemma evolves_OutputDecl [evolves_intros]:
  "finite_ast a \<Longrightarrow> evolves a v w \<Longrightarrow> evolves a v (OutputDecl a d dn w)"
  unfolding OutputDecl_def
  by (auto split: DeclKind.split intro!: evolves_intros)

lemma evolves_OutputType [evolves_intros]:
  "evolves a v w \<Longrightarrow> evolves a v (OutputType a t dn w)"
  unfolding OutputType_def OutputCvQualifiedType_def
  by (auto intro!: evolves_intros)

lemma evolves_dispatch:
  "finite_ast a \<Longrightarrow> evolves a v (dispatch a qe v)"
  by (cases qe) (auto intro!: evolves_intros evolves_refl)

lemma ProcessQueue_Nil: "Queue v = [] \<Longrightarrow> ProcessQueue a v = Some v"
  by (subst ProcessQueue.simps) simp

lemma ProcessQueue_Cons:
  "Queue v = qe # rest \<Longrightarrow>
     ProcessQueue a v = ProcessQueue a (dispatch a qe (v\<lparr>Queue := rest\<rparr>))"
  by (subst ProcessQueue.simps) simp

lemma work_pop: "Queue v = qe # rest \<Longrightarrow> work a (v\<lparr>Queue := rest\<rparr>) < work a v"
  by (simp add: work_def)

lemma ProcessQueue_total:
  assumes fin: "finite_ast a"
  shows "\<exists>v'. ProcessQueue a v = Some v' \<and> drains v v'"
proof (induction "work a v" arbitrary: v rule: less_induct)
  case less
  show ?case
  proof (cases "Queue v")
    case Nil
    then show ?thesis
      by (simp add: ProcessQueue_Nil drains_def)
  next
    case (Cons qe rest)
    let ?v1 = "v\<lparr>Queue := rest\<rparr>"
    let ?v2 = "dispatch a qe ?v1"
    have ev: "evolves a ?v1 ?v2"
      using fin by (rule evolves_dispatch)
    then have "work a ?v2 \<le> work a ?v1"
      by (simp add: evolves_def)
    with work_pop [OF Cons, of a] have "work a ?v2 < work a v"
      by simp
    from less [OF this] obtain v' where run: "ProcessQueue a ?v2 = Some v'" and d: "drains ?v2 v'"
      by blast
    have "drains v v'"
      using ev d unfolding drains_def evolves_def
      by (auto intro: prefix_order.order_trans)
    with run show ?thesis
      by (simp add: ProcessQueue_Cons [OF Cons])
  qed
qed

lemma evolves_fold:
  assumes "\<And>x w. x \<in> set xs \<Longrightarrow> evolves a w (f x w)"
  shows "evolves a v (fold f xs v)"
  using assms
proof (induction xs arbitrary: v)
  case Nil
  show ?case by (simp add: evolves_refl)
next
  case (Cons x xs)
  have "evolves a v (f x v)"
    by (rule Cons.prems) simp
  moreover have "evolves a (f x v) (fold f xs (f x v))"
    by (rule Cons.IH) (simp add: Cons.prems)
  ultimately show ?case
    by (simp add: evolves_trans)
qed

lemma evolves_LookupStart_step:
  "finite_ast a \<Longrightarrow> evolves a w (LookupStart a dc name w)"
proof (induction a dc name w rule: LookupStart.induct)
  case (1 a dc name w)
  show ?case
  proof (cases "find_scope name")
    case None
    have "evolves a w (fold (\<lambda>d v'. snd (AddDumpNode_Decl a d True v')) (lookup a dc name) w)"
      by (rule evolves_fold) (simp add: evolves_AddDumpNode_Decl evolves_refl "1.prems")
    with None show ?thesis
      by (subst LookupStart.simps) simp
  next
    case (Some pos)
    have "evolves a w
        (fold (\<lambda>d v'. if isDeclContext a d then LookupStart a d (drop (pos + 2) name) v' else v')
           (lookup a dc (take pos name)) w)"
      by (rule evolves_fold) (use "1.IH" [OF Some] "1.prems" in \<open>auto simp: evolves_refl\<close>)
    with Some show ?thesis
      by (subst LookupStart.simps) simp
  qed
qed

lemma evolves_LookupStart [evolves_intros]:
  "finite_ast a \<Longrightarrow> evolves a v w \<Longrightarrow> evolves a v (LookupStart a dc name w)"
  by (erule evolves_trans) (rule evolves_LookupStart_step)


section \<open>The registration operation\<close>

lemma AddDumpNodeImpl_fst:
  "fst (AddDumpNodeImpl k c v) = Index (GetDumpNode (snd (AddDumpNodeImpl k c v)) k)"
  by (simp add: AddDumpNodeImpl_def Let_def GetDumpNode_SetDumpNode)

lemma AddDumpNodeImpl_nonzero: "fst (AddDumpNodeImpl k c v) \<noteq> 0"
  by (simp add: AddDumpNodeImpl_def Let_def)

lemma AddDumpNodeImpl_index_stable:
  "Index (GetDumpNode v k') \<noteq> 0 \<Longrightarrow>
     Index (GetDumpNode (snd (AddDumpNodeImpl k c v)) k') = Index (GetDumpNode v k')"
  by (auto simp add: AddDumpNodeImpl_def Let_def GetDumpNode_SetDumpNode)

lemma AddDumpNodeImpl_complete_mono:
  "Index (GetDumpNode v k') \<noteq> 0 \<Longrightarrow> Complete (GetDumpNode v k') \<Longrightarrow>
     Complete (GetDumpNode (snd (AddDumpNodeImpl k c v)) k')"
  by (auto simp add: AddDumpNodeImpl_def Let_def GetDumpNode_SetDumpNode)

lemma AddDumpNodeImpl_frame:
  "RequireComplete (snd (AddDumpNodeImpl k c v)) = RequireComplete v"
  "OS (snd (AddDumpNodeImpl k c v)) = OS v"
  "FileCount (snd (AddDumpNodeImpl k c v)) = FileCount v"
  "FileNodes (snd (AddDumpNodeImpl k c v)) = FileNodes v"
  "FileQueue (snd (AddDumpNodeImpl k c v)) = FileQueue v"
  by (simp_all add: AddDumpNodeImpl_def Let_def)







lemma decimal_small: "n < 10 \<Longrightarrow> decimal n = [''0123456789'' ! n]"
  by (simp add: decimal.simps)

lemma decimal_large:
  "\<not> n < 10 \<Longrightarrow> decimal n = decimal (n div 10) @ [''0123456789'' ! (n mod 10)]"
  by (subst decimal.simps) simp

section \<open>Shared numbering\<close>






section \<open>Type references\<close>

lemma keeps_refl: "keeps v v"
  by (simp add: keeps_def)

lemma keeps_trans: "keeps v v1 \<Longrightarrow> keeps v1 v2 \<Longrightarrow> keeps v v2"
  unfolding keeps_def by metis

lemma keeps_index: "keeps v v' \<Longrightarrow> Index (GetDumpNode v k) \<noteq> 0 \<Longrightarrow>
    Index (GetDumpNode v' k) = Index (GetDumpNode v k)"
  by (simp add: keeps_def)


lemma keeps_AddDumpNodeImpl: "keeps v (snd (AddDumpNodeImpl k c v))"
  by (simp add: keeps_def AddDumpNodeImpl_index_stable AddDumpNodeImpl_complete_mono)










section \<open>The members attribute\<close>

lemma keeps_AddDumpNode_Decl: "keeps v (snd (AddDumpNode_Decl a d c v))"
  by (simp add: AddDumpNode_Decl_def keeps_AddDumpNodeImpl)


lemma members_loop_state:
  "snd (members_loop a ds emitted v) =
     fold (\<lambda>d w. snd (AddDumpNode_Decl a d True w)) (filter (\<lambda>d. \<not> ignored_member a d) ds) v"
  by (induction ds arbitrary: emitted v) (simp_all add: split_beta)

lemma keeps_fold_AddDumpNode_Decl:
  "keeps v (fold (\<lambda>d w. snd (AddDumpNode_Decl a d c w)) ds v)"
proof (induction ds arbitrary: v)
  case Nil
  show ?case by (simp add: keeps_refl)
next
  case (Cons d ds)
  show ?case
    using keeps_trans [OF keeps_AddDumpNode_Decl Cons.IH] by simp
qed


lemma members_loop_emitted:
  fixes a :: ast and ds :: "decl list" and emitted :: "nat list" and v :: ASTVisitor
  assumes "sorted emitted" and "distinct emitted"
  defines "r \<equiv> members_loop a ds emitted v"
  shows "sorted (fst r) \<and> distinct (fst r)
     \<and> set (fst r) = set emitted
         \<union> (\<lambda>d. Index (GetDumpNode (snd r) (KindDecl (getCanonicalDecl a d))))
             ` set (filter (\<lambda>d. \<not> ignored_member a d) ds)"
  using assms(1,2) unfolding r_def
proof (induction ds arbitrary: emitted v)
  case Nil
  then show ?case by simp
next
  case (Cons d ds)
  show ?case
  proof (cases "ignored_member a d")
    case True
    with Cons show ?thesis by simp
  next
    case False
    let ?k = "KindDecl (getCanonicalDecl a d)"
    let ?r1 = "AddDumpNode_Decl a d True v"
    let ?em = "insort_insert (fst ?r1) emitted"
    let ?r = "members_loop a ds ?em (snd ?r1)"
    have id: "fst ?r1 = Index (GetDumpNode (snd ?r1) ?k)" and nz: "fst ?r1 \<noteq> 0"
      by (simp_all add: AddDumpNode_Decl_def AddDumpNodeImpl_fst [symmetric]
          AddDumpNodeImpl_nonzero)
    have "keeps (snd ?r1) (snd ?r)"
      by (simp add: members_loop_state keeps_fold_AddDumpNode_Decl)
    from keeps_index [OF this] id nz
    have final: "Index (GetDumpNode (snd ?r) ?k) = fst ?r1"
      by simp
    have "sorted ?em" "distinct ?em"
      using Cons.prems by (simp_all add: sorted_insort_insert distinct_insort_insert)
    from Cons.IH [OF this, of "snd ?r1"]
    have "sorted (fst ?r) \<and> distinct (fst ?r)
       \<and> set (fst ?r) = insert (fst ?r1) (set emitted)
           \<union> (\<lambda>d. Index (GetDumpNode (snd ?r) (KindDecl (getCanonicalDecl a d))))
               ` set (filter (\<lambda>d. \<not> ignored_member a d) ds)"
      by (simp add: set_insort_insert)
    then show ?thesis
      using False nz final by (simp add: split_beta)
  qed
qed

lemma members_text_space:
  "members_text '' '' ids = concat (map (\<lambda>j. '' _'' @ decimal j) ids)"
  by (induction ids) simp_all


lemma PrintMembersAttribute_eq:
  fixes a :: ast and dc :: decl and v :: ASTVisitor
  defines "kept \<equiv> filter (\<lambda>d. \<not> ignored_member a d) (decls a dc)"
  defines "w \<equiv> fold (\<lambda>d w. snd (AddDumpNode_Decl a d True w)) kept v"
  defines "ids \<equiv> sorted_list_of_set
      ((\<lambda>d. Index (GetDumpNode w (KindDecl (getCanonicalDecl a d)))) ` set kept)"
  shows "PrintMembersAttribute a dc v =
     (case ids of [] \<Rightarrow> w
      | i # rest \<Rightarrow> w\<lparr>OS := OS w @ '' members=\"_'' @ decimal i
           @ concat (map (\<lambda>j. '' _'' @ decimal j) rest) @ ''\"''\<rparr>)"
proof -
  let ?r = "members_loop a (decls a dc) [] v"
  have st: "snd ?r = w"
    by (simp add: w_def kept_def members_loop_state)
  have "sorted (fst ?r) \<and> distinct (fst ?r)
     \<and> set (fst ?r) = (\<lambda>d. Index (GetDumpNode w (KindDecl (getCanonicalDecl a d)))) ` set kept"
    using members_loop_emitted [of "[]" a "decls a dc" v] by (simp add: st kept_def)
  then have "fst ?r = ids"
    unfolding ids_def
    by (metis sorted_list_of_set.idem_if_sorted_distinct)
  then show ?thesis
    by (cases ids) (simp_all add: PrintMembersAttribute_def split_beta st members_text_space)
qed



text \<open>
  C10. When every direct child of the container is an injected class name or an access
  specifier (or there is no child), \<^verbatim>\<open>PrintMembersAttribute\<close> changes nothing: no
  \<open>members\<close> attribute is written, not even an empty one. With a child that is kept, the
  attribute is written.
\<close>

theorem members_attribute_omitted:
  "(filter (\<lambda>d. \<not> ignored_member a d) (decls a dc) = [] \<longrightarrow> PrintMembersAttribute a dc v = v)
   \<and> (filter (\<lambda>d. \<not> ignored_member a d) (decls a dc) \<noteq> [] \<longrightarrow>
        OS (PrintMembersAttribute a dc v) \<noteq> OS v)"
proof (intro conjI impI)
  assume "filter (\<lambda>d. \<not> ignored_member a d) (decls a dc) = []"
  then show "PrintMembersAttribute a dc v = v"
    by (simp add: PrintMembersAttribute_eq)
next
  let ?kept = "filter (\<lambda>d. \<not> ignored_member a d) (decls a dc)"
  let ?w = "fold (\<lambda>d w. snd (AddDumpNode_Decl a d True w)) ?kept v"
  let ?ids = "sorted_list_of_set
      ((\<lambda>d. Index (GetDumpNode ?w (KindDecl (getCanonicalDecl a d)))) ` set ?kept)"
  assume "?kept \<noteq> []"
  then have "set ?kept \<noteq> {}"
    by (simp only: set_empty not_False_eq_True)
  then have "set ?ids \<noteq> {}"
    by simp
  then obtain i rest where ids: "?ids = i # rest"
    by (cases ?ids) auto
  have "OS (fold (\<lambda>d w. snd (AddDumpNode_Decl a d True w)) ds v) = OS v" for ds
    by (induction ds arbitrary: v) (simp_all add: AddDumpNode_Decl_def AddDumpNodeImpl_frame)
  then have os: "OS ?w = OS v" .
  have "PrintMembersAttribute a dc v =
      (case ?ids of [] \<Rightarrow> ?w
       | i # rest \<Rightarrow> ?w\<lparr>OS := OS ?w @ '' members=\"_'' @ decimal i
           @ concat (map (\<lambda>j. '' _'' @ decimal j) rest) @ ''\"''\<rparr>)"
    by (rule PrintMembersAttribute_eq)
  then have "OS (PrintMembersAttribute a dc v) = OS ?w @ '' members=\"_'' @ decimal i
           @ concat (map (\<lambda>j. '' _'' @ decimal j) rest) @ ''\"''"
    by (simp only: ids list.case) simp
  then show "OS (PrintMembersAttribute a dc v) \<noteq> OS v"
    by (simp add: os)
qed

theorem members_attribute_omitted_witness:
  "filter (\<lambda>d. \<not> ignored_member members_ast d) (decls members_ast 2) = []
   \<and> decls members_ast 2 = [30, 50]
   \<and> PrintMembersAttribute members_ast 2 members_state = members_state
   \<and> filter (\<lambda>d. \<not> ignored_member members_ast d) (decls members_ast 1) \<noteq> []
   \<and> OS (PrintMembersAttribute members_ast 1 members_state) \<noteq> OS members_state"
  using members_attribute_omitted [of members_ast 2 members_state]
    members_attribute_omitted [of members_ast 1 members_state]
  by (simp add: members_ast_def ignored_member_def)

section \<open>Kinds without an output routine\<close>

lemma OutputDecl_unimplemented:
  assumes "getKind a d \<noteq> TranslationUnit" "getKind a d \<noteq> Namespace" "getKind a d \<noteq> Typedef"
  shows \<open>OutputDecl a d dn v =
     v\<lparr>OS := OS v @ ''  <Unimplemented id="_'' @ decimal (Index (GetDumpNode v dn))
            @ ''" kind="'' @ encodeXML a (getDeclKindName a d) @ ''"/>\<newline>''\<rparr>\<close>
  using assms
  by (cases "getKind a d") (simp_all add: OutputDecl_def OutputUnimplementedDecl_def)

lemma OutputType_unimplemented:
  assumes "\<not> hasLocalQualifiers t"
  shows \<open>OutputType a t dn v =
     v\<lparr>OS := OS v @ ''  <Unimplemented id="_'' @ decimal (Index (GetDumpNode v dn))
            @ ''" type_class="'' @ encodeXML a (getTypeClassName a t) @ ''"/>\<newline>''\<rparr>\<close>
  using assms by (simp add: OutputType_def OutputUnimplementedType_def)

lemma OutputType_qualified:
  "hasLocalQualifiers t \<Longrightarrow> OutputType a t dn v = v"
  by (simp add: OutputType_def OutputCvQualifiedType_def)

text \<open>
  C8. A declaration whose kind is none of translation unit, namespace and typedef, and a
  type without local qualifiers, have no output routine of their own. Dispatching such an
  entry appends one \<open>Unimplemented\<close> element with the node's index and the name of its
  kind (of its type class, for a type) and changes nothing else, and the loop of
  \<^verbatim>\<open>ProcessQueue\<close> goes on with the rest of the queue.
\<close>

theorem unimplemented_placeholder:
  \<open>(getKind a d \<notin> {TranslationUnit, Namespace, Typedef} \<longrightarrow>
      dispatch a (KindDecl d) v =
        v\<lparr>OS := OS v @ ''  <Unimplemented id="_'' @ decimal (Index (GetDumpNode v (KindDecl d)))
               @ ''" kind="'' @ encodeXML a (getDeclKindName a d) @ ''"/>\<newline>''\<rparr>
      \<and> (Queue v = KindDecl d # rest \<longrightarrow>
           ProcessQueue a v =
             ProcessQueue a
               (v\<lparr>Queue := rest,
                  OS := OS v @ ''  <Unimplemented id="_''
                    @ decimal (Index (GetDumpNode v (KindDecl d)))
                    @ ''" kind="'' @ encodeXML a (getDeclKindName a d) @ ''"/>\<newline>''\<rparr>)))
   \<and> (\<not> hasLocalQualifiers t \<longrightarrow>
      dispatch a (KindType t) v =
        v\<lparr>OS := OS v @ ''  <Unimplemented id="_'' @ decimal (Index (GetDumpNode v (KindType t)))
               @ ''" type_class="'' @ encodeXML a (getTypeClassName a t) @ ''"/>\<newline>''\<rparr>
      \<and> (Queue v = KindType t # rest \<longrightarrow>
           ProcessQueue a v =
             ProcessQueue a
               (v\<lparr>Queue := rest,
                  OS := OS v @ ''  <Unimplemented id="_''
                    @ decimal (Index (GetDumpNode v (KindType t)))
                    @ ''" type_class="'' @ encodeXML a (getTypeClassName a t)
                    @ ''"/>\<newline>''\<rparr>)))\<close>
proof -
  have step: "Queue v = qe # rest \<Longrightarrow> dispatch a qe (v\<lparr>Queue := rest\<rparr>) = w \<Longrightarrow>
      ProcessQueue a v = ProcessQueue a w" for qe w
    by (simp add: ProcessQueue_Cons)
  show ?thesis
  proof (intro conjI impI)
    assume k: "getKind a d \<notin> {TranslationUnit, Namespace, Typedef}"
    then show \<open>dispatch a (KindDecl d) v =
        v\<lparr>OS := OS v @ ''  <Unimplemented id="_'' @ decimal (Index (GetDumpNode v (KindDecl d)))
               @ ''" kind="'' @ encodeXML a (getDeclKindName a d) @ ''"/>\<newline>''\<rparr>\<close>
      by (simp add: OutputDecl_unimplemented)
    assume q: "Queue v = KindDecl d # rest"
    show \<open>ProcessQueue a v =
        ProcessQueue a
          (v\<lparr>Queue := rest,
             OS := OS v @ ''  <Unimplemented id="_''
               @ decimal (Index (GetDumpNode v (KindDecl d)))
               @ ''" kind="'' @ encodeXML a (getDeclKindName a d) @ ''"/>\<newline>''\<rparr>)\<close>
      using k by (intro step [OF q]) (simp add: OutputDecl_unimplemented)
  next
    assume k: "\<not> hasLocalQualifiers t"
    then show \<open>dispatch a (KindType t) v =
        v\<lparr>OS := OS v @ ''  <Unimplemented id="_'' @ decimal (Index (GetDumpNode v (KindType t)))
               @ ''" type_class="'' @ encodeXML a (getTypeClassName a t) @ ''"/>\<newline>''\<rparr>\<close>
      by (simp add: OutputType_unimplemented)
    assume q: "Queue v = KindType t # rest"
    show \<open>ProcessQueue a v =
        ProcessQueue a
          (v\<lparr>Queue := rest,
             OS := OS v @ ''  <Unimplemented id="_''
               @ decimal (Index (GetDumpNode v (KindType t)))
               @ ''" type_class="'' @ encodeXML a (getTypeClassName a t)
               @ ''"/>\<newline>''\<rparr>)\<close>
      using k by (intro step [OF q]) (simp add: OutputType_unimplemented)
  qed
qed

theorem unimplemented_placeholder_witness:
  \<open>getKind one_decl_ast 5 \<notin> {TranslationUnit, Namespace, Typedef}
   \<and> \<not> hasLocalQualifiers plain_T
   \<and> Queue (snd (AddDumpNode_Decl one_decl_ast 5 True ASTVisitor_init)) = [KindDecl 5]
   \<and> OS (dispatch one_decl_ast (KindDecl 5)
        (snd (AddDumpNode_Decl one_decl_ast 5 True ASTVisitor_init)))
      = ''  <Unimplemented id="_1" kind="Var"/>\<newline>''
   \<and> OS (dispatch one_decl_ast (KindType plain_T)
        (snd (AddDumpNode_Type plain_T True ASTVisitor_init)))
      = ''  <Unimplemented id="_1" type_class="Builtin"/>\<newline>''
   \<and> map_option OS (ProcessQueue one_decl_ast
        (snd (AddDumpNode_Decl one_decl_ast 5 True ASTVisitor_init)))
      = Some ''  <Unimplemented id="_1" kind="Var"/>\<newline>''\<close>
  using unimplemented_placeholder [of one_decl_ast 5
      "snd (AddDumpNode_Decl one_decl_ast 5 True ASTVisitor_init)" "[]" plain_T]
    unimplemented_placeholder [of one_decl_ast 5
      "snd (AddDumpNode_Type plain_T True ASTVisitor_init)" "[]" plain_T]
  by (simp add: one_decl_ast_def plain_T_def hasLocalQualifiers_def AddDumpNode_Decl_def
      AddDumpNode_Type_def AddDumpNodeImpl_def ASTVisitor_init_def DumpNode_default_def
      GetDumpNode.simps SetDumpNode.simps decimal_small ProcessQueue_Nil)


section \<open>Start names\<close>

declare start_set.simps [simp del]

lemma find_scope_Some:
  "find_scope name = Some pos \<Longrightarrow>
     name = take pos name @ ''::'' @ drop (pos + 2) name \<and> find_scope (take (Suc pos) name) = None"
proof (induction name arbitrary: pos rule: find_scope.induct)
  case (1 c1 c2 cs)
  show ?case
  proof (cases "c1 = CHR '':'' \<and> c2 = CHR '':''")
    case True
    with 1 show ?thesis by simp
  next
    case False
    with "1.prems" obtain p where p: "find_scope (c2 # cs) = Some p" and pos: "pos = Suc p"
      by auto
    from "1.IH" [OF False p] have ih: "c2 # cs = take p (c2 # cs) @ ''::'' @ drop (p + 2) (c2 # cs)"
      and none: "find_scope (take (Suc p) (c2 # cs)) = None"
      by simp_all
    have "c1 # c2 # cs = take pos (c1 # c2 # cs) @ ''::'' @ drop (pos + 2) (c1 # c2 # cs)"
      using ih by (simp add: pos)
    moreover have "find_scope (take (Suc pos) (c1 # c2 # cs)) = None"
    proof (cases "take p cs")
      case Nil
      then show ?thesis using False none by (simp add: pos)
    next
      case (Cons x xs)
      then show ?thesis using False none by (simp add: pos)
    qed
    ultimately show ?thesis by simp
  qed
qed simp_all

lemma find_scope_None: "find_scope name = None \<Longrightarrow> \<nexists>xs ys. name = xs @ ''::'' @ ys"
proof (induction name rule: find_scope.induct)
  case (1 c1 c2 cs)
  have c: "\<not> (c1 = CHR '':'' \<and> c2 = CHR '':'')" and rec: "find_scope (c2 # cs) = None"
    using "1.prems" by (auto split: if_splits)
  show ?case
  proof
    assume "\<exists>xs ys. c1 # c2 # cs = xs @ ''::'' @ ys"
    then obtain xs ys where eq: "c1 # c2 # cs = xs @ ''::'' @ ys" by blast
    show False
    proof (cases xs)
      case Nil
      with eq c show False by simp
    next
      case (Cons x xs')
      with eq have "c2 # cs = xs' @ ''::'' @ ys" by simp
      with "1.IH" [OF c rec] show False by blast
    qed
  qed
qed (auto simp add: Cons_eq_append_conv)

lemma LookupStart_start_set:
  "LookupStart a dc name v = fold (\<lambda>d w. snd (AddDumpNode_Decl a d True w)) (start_set a dc name) v"
proof (induction a dc name v rule: LookupStart.induct)
  case (1 a dc name v)
  let ?reg = "\<lambda>d w. snd (AddDumpNode_Decl a d True w)"
  show ?case
  proof (cases "find_scope name")
    case None
    then show ?thesis
      by (subst LookupStart.simps, subst start_set.simps) simp
  next
    case (Some pos)
    let ?rest = "drop (pos + 2) name"
    have "fold (\<lambda>d v'. if isDeclContext a d then LookupStart a d ?rest v' else v') ms w
        = fold ?reg (concat (map (\<lambda>d. if isDeclContext a d then start_set a d ?rest else []) ms)) w"
      if "set ms \<subseteq> set (lookup a dc (take pos name))" for ms w
      using that
    proof (induction ms arbitrary: w)
      case Nil
      show ?case by simp
    next
      case (Cons m ms)
      have m: "m \<in> set (lookup a dc (take pos name))"
        using Cons.prems by simp
      have "isDeclContext a m \<Longrightarrow> LookupStart a m ?rest w = fold ?reg (start_set a m ?rest) w"
        using "1.IH" [OF Some m] by simp
      then show ?case
        using Cons by simp
    qed
    from this [OF subset_refl] Some show ?thesis
      by (subst LookupStart.simps, subst start_set.simps) simp
  qed
qed

lemma LookupStart_None:
  "find_scope name = None \<Longrightarrow>
     LookupStart a dc name v = fold (\<lambda>d w. snd (AddDumpNode_Decl a d True w)) (lookup a dc name) v"
  by (subst LookupStart.simps) simp

lemma LookupStart_Some:
  "find_scope name = Some pos \<Longrightarrow>
     LookupStart a dc name v =
       fold (\<lambda>d w. if isDeclContext a d then LookupStart a d (drop (pos + 2) name) w else w)
         (lookup a dc (take pos name)) v"
  by (subst LookupStart.simps) simp

lemma start_set_None: "find_scope name = None \<Longrightarrow> start_set a dc name = lookup a dc name"
  by (subst start_set.simps) simp

lemma start_set_Some:
  "find_scope name = Some pos \<Longrightarrow>
     start_set a dc name =
       concat (map (\<lambda>d. if isDeclContext a d then start_set a d (drop (pos + 2) name) else [])
         (lookup a dc (take pos name)))"
  by (subst start_set.simps) simp

lemma add_start_nodes_miss:
  assumes "names \<noteq> []" and "\<forall>n \<in> set names. start_set a tu n = []"
  shows "add_start_nodes a names tu v = v"
proof -
  have "fold (\<lambda>name v'. LookupStart a tu name v') ns v = v" if "\<forall>n \<in> set ns. start_set a tu n = []" for ns
    using that by (induction ns) (simp_all add: LookupStart_start_set)
  with assms show ?thesis
    by (simp add: add_start_nodes_def)
qed

lemma HandleTranslationUnit_envelope:
  assumes "add_start_nodes a names tu ASTVisitor_init = ASTVisitor_init"
  shows "HandleTranslationUnit a names tu ASTVisitor_init =
     Some (ASTVisitor_init\<lparr>RequireComplete := False, OS := xml_header @ xml_footer\<rparr>)"
  unfolding HandleTranslationUnit_def assms Let_def
  by (simp add: ProcessQueue_Nil QueueIncompleteDumpNodes_def ProcessFileQueue_def
      ASTVisitor_init_def)

text \<open>
  C9. \<^verbatim>\<open>LookupStart\<close> splits the name at the first \<open>::\<close> and looks the leading segment up
  in the container. Without a separator it registers every match with a complete request;
  with one it recurses, with the rest of the name, into every match that is a declaration
  context. Altogether it registers, complete and in order, the start set of the name, and a
  name whose start set is empty leaves the state unchanged. With no start names the
  translation unit is registered complete; with start names that all match nothing the
  output is the header and the footer alone.
\<close>

theorem start_set_resolution:
  "(find_scope name = None \<longrightarrow>
      (\<nexists>xs ys. name = xs @ ''::'' @ ys)
      \<and> LookupStart a dc name v =
          fold (\<lambda>d w. snd (AddDumpNode_Decl a d True w)) (lookup a dc name) v)
   \<and> (find_scope name = Some pos \<longrightarrow>
      name = take pos name @ ''::'' @ drop (pos + 2) name
      \<and> find_scope (take (Suc pos) name) = None
      \<and> LookupStart a dc name v =
          fold (\<lambda>d w. if isDeclContext a d then LookupStart a d (drop (pos + 2) name) w else w)
            (lookup a dc (take pos name)) v)
   \<and> LookupStart a dc name v =
       fold (\<lambda>d w. snd (AddDumpNode_Decl a d True w)) (start_set a dc name) v
   \<and> (start_set a dc name = [] \<longrightarrow> LookupStart a dc name v = v)
   \<and> add_start_nodes a [] tu v = snd (AddDumpNode_Decl a tu True v)
   \<and> (names \<noteq> [] \<longrightarrow>
        add_start_nodes a names tu v = fold (\<lambda>n w. LookupStart a tu n w) names v)
   \<and> (names \<noteq> [] \<and> (\<forall>n \<in> set names. start_set a (getTranslationUnitDecl a) n = []) \<longrightarrow>
        outputXML a names =
          Some (ASTVisitor_init\<lparr>RequireComplete := False, OS := xml_header @ xml_footer\<rparr>))"
proof -
  have "names \<noteq> [] \<and> (\<forall>n \<in> set names. start_set a (getTranslationUnitDecl a) n = []) \<longrightarrow>
        outputXML a names =
          Some (ASTVisitor_init\<lparr>RequireComplete := False, OS := xml_header @ xml_footer\<rparr>)"
    unfolding outputXML_def
    by (intro impI HandleTranslationUnit_envelope add_start_nodes_miss) simp_all
  moreover have "start_set a dc name = [] \<longrightarrow> LookupStart a dc name v = v"
    by (simp add: LookupStart_start_set)
  moreover have "find_scope name = None \<longrightarrow> (\<nexists>xs ys. name = xs @ ''::'' @ ys)"
    using find_scope_None by blast
  moreover have "find_scope name = Some pos \<longrightarrow>
      name = take pos name @ ''::'' @ drop (pos + 2) name
      \<and> find_scope (take (Suc pos) name) = None"
    using find_scope_Some by blast
  ultimately show ?thesis
    using LookupStart_start_set [of a dc name v] LookupStart_None [of name a dc v]
      LookupStart_Some [of name pos a dc v]
    by (simp add: add_start_nodes_def)
qed

theorem start_set_resolution_witness:
  "find_scope ''N::C'' = Some 1 \<and> take 1 ''N::C'' = ''N'' \<and> drop (1 + 2) ''N::C'' = ''C''
   \<and> find_scope ''C'' = None
   \<and> start_set lookup_ast 1 ''N::C'' = [3, 4]
   \<and> Queue (LookupStart lookup_ast 1 ''N::C'' ASTVisitor_init) = [KindDecl 3, KindDecl 4]
   \<and> start_set lookup_ast 1 ''N::zzz'' = []
   \<and> LookupStart lookup_ast 1 ''N::zzz'' ASTVisitor_init = ASTVisitor_init
   \<and> [''M'', ''N::zzz''] \<noteq> []
   \<and> map_option OS (outputXML lookup_ast [''M'', ''N::zzz'']) = Some (xml_header @ xml_footer)"
  using start_set_resolution [of "''N::C''" lookup_ast 1 ASTVisitor_init 1 1 "[''M'', ''N::zzz'']"]
    start_set_resolution [of "''N::zzz''" lookup_ast 1 ASTVisitor_init 1 1 "[''M'', ''N::zzz'']"]
    start_set_resolution [of "''C''" lookup_ast 2 ASTVisitor_init 1 1 "[''M'', ''N::zzz'']"]
  by (simp add: start_set_Some start_set_None LookupStart_Some LookupStart_None lookup_ast_def
      AddDumpNode_Decl_def
      AddDumpNodeImpl_def ASTVisitor_init_def DumpNode_default_def GetDumpNode.simps
      SetDumpNode.simps)

section \<open>The sweep and the file queue\<close>

lemma sorted_key_filter:
  fixes f :: "'a \<Rightarrow> nat"
  shows "sorted (map f (filter P (sort_key f xs)))"
  by (rule sorted_filter) (rule sorted_sort_key)

lemma distinct_key_filter:
  "distinct (map f xs) \<Longrightarrow> distinct (map f (filter P (sort_key g xs)))"
  by (rule distinct_map_filter) (simp add: distinct_map)

lemma set_incomplete:
  assumes "distinct (map fst xs)"
  shows "set (map fst (filter (\<lambda>e. \<not> Complete (snd e)) (sort_key g xs)))
     = {k. k \<in> fst ` set xs
          \<and> \<not> Complete (case map_of xs k of None \<Rightarrow> DumpNode_default | Some dn \<Rightarrow> dn)}"
proof -
  have "map_of xs k = Some dn" if "(k, dn) \<in> set xs" for k dn
    using assms that by simp
  then show ?thesis
    by (auto simp add: image_iff)
qed

lemma QueueIncompleteDumpNodes_Queue:
  fixes v :: ASTVisitor
  assumes "wf_registry v"
  defines "ds \<equiv> map fst (filter (\<lambda>e. \<not> Complete (snd e)) (sort_key fst (DeclNodes v)))"
  defines "ts \<equiv> map fst (filter (\<lambda>e. \<not> Complete (snd e))
      (sort_key (getAsOpaquePtr \<circ> fst) (TypeNodes v)))"
  shows "Queue (QueueIncompleteDumpNodes v) = Queue v @ map KindDecl ds @ map KindType ts"
    and "sorted ds" and "distinct ds"
    and "set ds = {d. registered v (KindDecl d) \<and> \<not> Complete (GetDumpNode v (KindDecl d))}"
    and "sorted (map getAsOpaquePtr ts)" and "distinct ts"
    and "set ts = {t. registered v (KindType t) \<and> \<not> Complete (GetDumpNode v (KindType t))}"
proof -
  show "Queue (QueueIncompleteDumpNodes v) = Queue v @ map KindDecl ds @ map KindType ts"
    by (simp add: QueueIncompleteDumpNodes_def ds_def ts_def)
  show "sorted ds"
    unfolding ds_def by (rule sorted_key_filter)
  have "sorted (map (getAsOpaquePtr \<circ> fst) (filter (\<lambda>e. \<not> Complete (snd e))
      (sort_key (getAsOpaquePtr \<circ> fst) (TypeNodes v))))"
    by (rule sorted_key_filter)
  then show "sorted (map getAsOpaquePtr ts)"
    by (simp add: ts_def)
  show "distinct ds" "distinct ts"
    using assms(1) unfolding ds_def ts_def wf_registry_def
    by (simp_all only: distinct_key_filter)
  show "set ds = {d. registered v (KindDecl d) \<and> \<not> Complete (GetDumpNode v (KindDecl d))}"
    using assms(1) unfolding ds_def wf_registry_def
    by (simp only: set_incomplete registered.simps GetDumpNode.simps)
  show "set ts = {t. registered v (KindType t) \<and> \<not> Complete (GetDumpNode v (KindType t))}"
    using assms(1) unfolding ts_def wf_registry_def
    by (simp only: set_incomplete registered.simps GetDumpNode.simps)
qed

lemma QueueIncompleteDumpNodes_frame:
  "RequireComplete (QueueIncompleteDumpNodes v) = RequireComplete v"
  "OS (QueueIncompleteDumpNodes v) = OS v"
  "wf_registry (QueueIncompleteDumpNodes v) = wf_registry v"
  "file_inv (QueueIncompleteDumpNodes v) = file_inv v"
  by (simp_all add: QueueIncompleteDumpNodes_def)

lemma ProcessFileQueue_loop_eq:
  "ProcessFileQueue_loop a fs v =
     v\<lparr>FileQueue := (if fs = [] then FileQueue v else []),
       OS := OS v @ concat (map (\<lambda>f. File_element a (file_index (FileNodes v) f) f) fs)\<rparr>"
  by (induction fs arbitrary: v) (simp_all add: File_element_def file_index_def)



lemma fold_register_OS:
  "OS (fold (\<lambda>d w. snd (AddDumpNode_Decl a d c w)) ds v) = OS v"
  by (induction ds arbitrary: v) (simp_all add: AddDumpNode_Decl_def AddDumpNodeImpl_frame)

lemma add_start_nodes_OS: "OS (add_start_nodes a names tu v) = OS v"
proof -
  have "OS (fold (\<lambda>name v'. LookupStart a tu name v') ns v) = OS v" for ns
    by (induction ns arbitrary: v) (simp_all add: LookupStart_start_set fold_register_OS)
  then show ?thesis
    by (simp add: add_start_nodes_def AddDumpNode_Decl_def AddDumpNodeImpl_frame)
qed

lemma evolves_add_start_nodes:
  "finite_ast a \<Longrightarrow> evolves a v (add_start_nodes a names tu v)"
  unfolding add_start_nodes_def
  by (auto intro!: evolves_fold evolves_LookupStart_step evolves_AddDumpNode_Decl evolves_refl)

lemma ASTVisitor_init_inv:
  "wf_registry ASTVisitor_init" "file_inv ASTVisitor_init" "RequireComplete ASTVisitor_init"
  "OS ASTVisitor_init = []"
  by (simp_all add: ASTVisitor_init_def wf_registry_def file_inv_def)

lemma dump_phases:
  assumes fin: "finite_ast a"
    and s0: "s0 = add_start_nodes a names (getTranslationUnitDecl a) ASTVisitor_init"
    and s1: "s1 = s0\<lparr>OS := OS s0 @ xml_header\<rparr>"
  shows "\<exists>v1 v2.
    ProcessQueue a s1 = Some v1
    \<and> ProcessQueue a (QueueIncompleteDumpNodes (v1\<lparr>RequireComplete := False\<rparr>)) = Some v2
    \<and> outputXML a names
        = Some ((ProcessFileQueue a v2)\<lparr>OS := OS (ProcessFileQueue a v2) @ xml_footer\<rparr>)
    \<and> OS s1 = xml_header \<and> RequireComplete s1
    \<and> Queue v1 = [] \<and> RequireComplete v1 \<and> prefix (OS s1) (OS v1) \<and> wf_registry v1
    \<and> Queue v2 = [] \<and> \<not> RequireComplete v2 \<and> prefix (OS v1) (OS v2) \<and> file_inv v2"
proof -
  have ev0: "evolves a ASTVisitor_init s0"
    unfolding s0 using fin by (rule evolves_add_start_nodes)
  have i: "OS s1 = xml_header" "RequireComplete s1" "wf_registry s1" "file_inv s1"
    using ev0 by (simp_all add: s1 s0 add_start_nodes_OS ASTVisitor_init_inv evolves_def)
  from ProcessQueue_total [OF fin, of s1] obtain v1
    where run1: "ProcessQueue a s1 = Some v1" and d1: "drains s1 v1"
    by blast
  let ?s2 = "QueueIncompleteDumpNodes (v1\<lparr>RequireComplete := False\<rparr>)"
  from ProcessQueue_total [OF fin, of ?s2] obtain v2
    where run2: "ProcessQueue a ?s2 = Some v2" and d2: "drains ?s2 v2"
    by blast
  have v1: "Queue v1 = []" "RequireComplete v1" "prefix (OS s1) (OS v1)" "wf_registry v1"
    "file_inv v1"
    using d1 i by (simp_all add: drains_def)
  have v2: "Queue v2 = []" "\<not> RequireComplete v2" "prefix (OS v1) (OS v2)" "file_inv v2"
    using d2 v1 by (simp_all add: drains_def QueueIncompleteDumpNodes_frame)
  have out: "outputXML a names =
      Some ((ProcessFileQueue a v2)\<lparr>OS := OS (ProcessFileQueue a v2) @ xml_footer\<rparr>)"
    using run1 run2 unfolding outputXML_def HandleTranslationUnit_def s1 s0 Let_def
    by simp
  show ?thesis
    apply (rule exI [where x = v1], rule exI [where x = v2])
    using run1 run2 out i(1,2) v1(1-4) v2 apply (intro conjI)
                apply assumption+
    done
qed

section \<open>The two phases\<close>

lemma finite_ast_order_ast: "finite_ast order_ast"
proof -
  have "range (\<lambda>d::nat. if d < 50 then d else 0) \<subseteq> {..<50}"
    by auto
  then have "finite (range (\<lambda>d::nat. if d < 50 then d else 0))"
    by (rule finite_subset) simp
  then show ?thesis
    by (simp add: finite_ast_def order_ast_def)
qed

lemma registered_upd [simp]:
  "registered (v\<lparr>RequireComplete := b\<rparr>) k = registered v k"
  "registered (v\<lparr>OS := os\<rparr>) k = registered v k"
  "registered (v\<lparr>Queue := q\<rparr>) k = registered v k"
  by (cases k; simp)+

lemma sweep_Queue:
  assumes "wf_registry v" and "Queue v = []"
  shows "distinct (Queue (QueueIncompleteDumpNodes v))"
    and "set (Queue (QueueIncompleteDumpNodes v))
      = {k. registered v k \<and> \<not> Complete (GetDumpNode v k)}"
proof -
  define ds where "ds = map fst (filter (\<lambda>e. \<not> Complete (snd e)) (sort_key fst (DeclNodes v)))"
  define ts where "ts = map fst (filter (\<lambda>e. \<not> Complete (snd e))
      (sort_key (getAsOpaquePtr \<circ> fst) (TypeNodes v)))"
  note q = QueueIncompleteDumpNodes_Queue [OF assms(1), folded ds_def ts_def]
  have queue: "Queue (QueueIncompleteDumpNodes v) = map KindDecl ds @ map KindType ts"
    using q(1) assms(2) by simp
  have "distinct (map KindDecl ds)" "distinct (map KindType ts)"
    using q(3) q(6) by (simp_all add: distinct_map inj_on_def)
  moreover have "set (map KindDecl ds) \<inter> set (map KindType ts) = {}"
    by auto
  ultimately show "distinct (Queue (QueueIncompleteDumpNodes v))"
    by (simp only: queue distinct_append)
  show "set (Queue (QueueIncompleteDumpNodes v))
      = {k. registered v k \<and> \<not> Complete (GetDumpNode v k)}"
  proof (rule set_eqI)
    fix k
    show "k \<in> set (Queue (QueueIncompleteDumpNodes v))
        \<longleftrightarrow> k \<in> {k. registered v k \<and> \<not> Complete (GetDumpNode v k)}"
    proof (cases k)
      case (KindDecl d)
      have "k \<in> set (Queue (QueueIncompleteDumpNodes v)) \<longleftrightarrow> d \<in> set ds"
        by (auto simp add: queue KindDecl)
      then show ?thesis
        by (simp add: q(4) KindDecl)
    next
      case (KindType t)
      have "k \<in> set (Queue (QueueIncompleteDumpNodes v)) \<longleftrightarrow> t \<in> set ts"
        by (auto simp add: queue KindType)
      then show ?thesis
        by (simp add: q(7) KindType)
    qed
  qed
qed

lemma ProcessFileQueue_frame:
  "Queue (ProcessFileQueue a v) = Queue v"
  "RequireComplete (ProcessFileQueue a v) = RequireComplete v"
  "FileQueue (ProcessFileQueue a v) = []"
  by (simp_all add: ProcessFileQueue_def ProcessFileQueue_loop_eq)

text \<open>
  C3. On an AST with finitely many declarations and types the dump runs in two phases and
  ends. Phase 1 starts with \<open>RequireComplete\<close> set and drains the queue: the loop returns,
  with the queue empty and the flag still set. Then the flag is cleared and the sweep
  queues exactly the registered identities whose node is incomplete, each once. Phase 2
  drains the queue again: the loop returns with the queue empty and the flag still clear,
  and the dump returns after writing the files and the footer.
\<close>

theorem two_phase_dump:
  fixes a :: ast and names :: "string list"
  assumes "finite_ast a"
  defines "s0 \<equiv> add_start_nodes a names (getTranslationUnitDecl a) ASTVisitor_init"
  shows "\<exists>v1 v2 v.
     RequireComplete (s0\<lparr>OS := OS s0 @ xml_header\<rparr>)
     \<and> ProcessQueue a (s0\<lparr>OS := OS s0 @ xml_header\<rparr>) = Some v1
     \<and> Queue v1 = [] \<and> RequireComplete v1
     \<and> \<not> RequireComplete (QueueIncompleteDumpNodes (v1\<lparr>RequireComplete := False\<rparr>))
     \<and> distinct (Queue (QueueIncompleteDumpNodes (v1\<lparr>RequireComplete := False\<rparr>)))
     \<and> set (Queue (QueueIncompleteDumpNodes (v1\<lparr>RequireComplete := False\<rparr>)))
         = {k. registered v1 k \<and> \<not> Complete (GetDumpNode v1 k)}
     \<and> ProcessQueue a (QueueIncompleteDumpNodes (v1\<lparr>RequireComplete := False\<rparr>)) = Some v2
     \<and> Queue v2 = [] \<and> \<not> RequireComplete v2
     \<and> v = (ProcessFileQueue a v2)\<lparr>OS := OS (ProcessFileQueue a v2) @ xml_footer\<rparr>
     \<and> outputXML a names = Some v
     \<and> Queue v = [] \<and> FileQueue v = [] \<and> \<not> RequireComplete v"
proof -
  have s0: "s0 = add_start_nodes a names (getTranslationUnitDecl a) ASTVisitor_init"
    by (simp add: s0_def)
  from dump_phases [OF assms(1) s0 refl] obtain v1 v2 where
    run: "ProcessQueue a (s0\<lparr>OS := OS s0 @ xml_header\<rparr>) = Some v1"
      "ProcessQueue a (QueueIncompleteDumpNodes (v1\<lparr>RequireComplete := False\<rparr>)) = Some v2"
      "outputXML a names
         = Some ((ProcessFileQueue a v2)\<lparr>OS := OS (ProcessFileQueue a v2) @ xml_footer\<rparr>)"
    and s1: "RequireComplete (s0\<lparr>OS := OS s0 @ xml_header\<rparr>)"
    and v1: "Queue v1 = []" "RequireComplete v1" "wf_registry v1"
    and v2: "Queue v2 = []" "\<not> RequireComplete v2"
    by (elim exE conjE)
  have sw: "distinct (Queue (QueueIncompleteDumpNodes (v1\<lparr>RequireComplete := False\<rparr>)))"
    "set (Queue (QueueIncompleteDumpNodes (v1\<lparr>RequireComplete := False\<rparr>)))
       = {k. registered v1 k \<and> \<not> Complete (GetDumpNode v1 k)}"
    using sweep_Queue [of "v1\<lparr>RequireComplete := False\<rparr>"] v1 by simp_all
  show ?thesis
    apply (rule exI [where x = v1], rule exI [where x = v2])
    using run s1 v1 v2 sw
    apply (simp add: QueueIncompleteDumpNodes_frame ProcessFileQueue_frame)
    done
qed

theorem two_phase_dump_witness:
  "finite_ast order_ast
   \<and> (\<exists>v. outputXML order_ast [''A::x'', ''B::y''] = Some v \<and> Queue v = [] \<and> FileQueue v = []
        \<and> \<not> RequireComplete v)"
  using two_phase_dump [OF finite_ast_order_ast, of "[''A::x'', ''B::y'']"]
    finite_ast_order_ast
  by blast



lemmas dump_eval =
  outputXML_def HandleTranslationUnit_def add_start_nodes_def ASTVisitor_init_def
  LookupStart_None LookupStart_Some ProcessQueue_Nil ProcessQueue_Cons
  QueueIncompleteDumpNodes_def ProcessFileQueue_def
  AddDumpNode_Decl_def AddDumpNode_Type_def AddDumpNodeImpl_def AddDumpFile_def
  GetDumpNode.simps SetDumpNode.simps DumpNode_default_def
  OutputDecl_def OutputType_def OutputTranslationUnitDecl_def OutputNamespaceDecl_def
  OutputTypedefDecl_def OutputUnimplementedDecl_def OutputUnimplementedType_def
  OutputCvQualifiedType_def PrintIdAttribute_def PrintNameAttribute_def
  PrintTypeAttribute_def PrintTypeIdRef_def GetTypeIdRef_def PrintContextAttribute_def
  GetContextIdRef_def PrintLocationAttribute_def PrintMembersAttribute_def ignored_member_def
  insort_insert_key_def hasLocalQualifiers_def getLocalUnqualifiedType_def
  isLocalConstQualified_def isLocalVolatileQualified_def isLocalRestrictQualified_def
  getAsOpaquePtr_def decimal_small xml_header_def xml_footer_def

section \<open>Two dumps\<close>

text \<open>
  C1. The dump of \<^verbatim>\<open>typedef const int T;\<close> registers four identities: the translation
  unit (1), the typedef (2), \<open>const int\<close> (3) and \<open>int\<close> (4). The entry of \<open>const int\<close> is
  dispatched to \<^verbatim>\<open>OutputCvQualifiedType\<close>, which writes nothing, so the output has the
  elements of 1, 2 and 4 and none with the id \<open>_3\<close>, while the typedef refers to \<open>_4c\<close>.
\<close>

theorem cv_qualified_type_not_emitted:
  \<open>map_option OS (outputXML typedef_ast []) =
     Some (''<?xml version="1.0"?>\<newline>''
       @ ''<GCC_XML version="0.9.0" cvs_revision="1.136">\<newline>''
       @ ''  <Namespace id="_1" name="::" members="_2"/>\<newline>''
       @ ''  <Typedef id="_2" name="T" type="_4c" context="_1" location="f1:1" file="f1" line="1"/>\<newline>''
       @ ''  <Unimplemented id="_4" type_class="Builtin"/>\<newline>''
       @ ''  <File id="f1" name="t.cxx"/>\<newline>''
       @ ''</GCC_XML>\<newline>'')
   \<and> map_option (\<lambda>v. (GetDumpNode v (KindType const_T), NodeCount v)) (outputXML typedef_ast [])
       = Some (\<lparr>Index = 3, Complete = True\<rparr>, 4)
   \<and> hasLocalQualifiers const_T
   \<and> (\<forall>v. dispatch typedef_ast (KindType const_T) v = v)\<close>
  by (simp add: dump_eval typedef_ast_def const_T_def)


end
